(* ===== verification/Prelude.thy ===== *)
theory Prelude
  imports Main "HOL-Library.Word"
begin

text \<open>
  Shared ground of the development: the collections of simplification rules the
  component theories extend, the model of Go's byte strings, of the
  \<^verbatim>\<open>strings\<close> and \<^verbatim>\<open>strconv\<close> functions the program calls, and of
  64-bit integer arithmetic.

  A Go \<^verbatim>\<open>string\<close> is a sequence of bytes; it is the HOL type \<^typ>\<open>string\<close>,
  whose characters are exactly the 256 bytes. An index result that Go encodes as
  \<open>-1\<close> is \<open>None\<close> here. Go's \<^verbatim>\<open>int\<close> and \<^verbatim>\<open>time.Duration\<close> are
  64-bit signed integers: they are \<^typ>\<open>int\<close> values, and every operation that can leave
  the range goes through \<open>wrap64\<close>. Counters of type \<^verbatim>\<open>uint64\<close> are
  \<^typ>\<open>64 word\<close> values.
\<close>

named_theorems go_str "rewrite rules for the strings and strconv functions"
named_theorems go_chan "rewrite rules for buffered channels"

section \<open>Bytes\<close>

abbreviation SP :: char where "SP \<equiv> CHR '' ''"
abbreviation TAB :: char where "TAB \<equiv> CHR 0x09"
abbreviation LF :: char where "LF \<equiv> CHR 0x0A"
abbreviation CR :: char where "CR \<equiv> CHR 0x0D"
abbreviation DQ :: char where "DQ \<equiv> CHR 0x22"
abbreviation BS :: char where "BS \<equiv> CHR 0x5C"
abbreviation CRLF :: string where "CRLF \<equiv> [CR, LF]"

type_synonym byte_count = nat

section \<open>64-bit signed integers\<close>

definition wrap64 :: "int \<Rightarrow> int" where
  "wrap64 x = (x + 2 ^ 63) mod 2 ^ 64 - 2 ^ 63"

abbreviation int64_range :: "int \<Rightarrow> bool" where
  "int64_range x \<equiv> - (2 ^ 63) \<le> x \<and> x < 2 ^ 63"

lemma wrap64_in_range: "int64_range (wrap64 x)"
proof -
  have "0 \<le> (x + 2 ^ 63) mod 2 ^ 64" and "(x + 2 ^ 63) mod 2 ^ 64 < 2 ^ 64"
    by simp_all
  then show ?thesis by (simp add: wrap64_def)
qed

lemma wrap64_id: "int64_range x \<Longrightarrow> wrap64 x = x"
  by (simp add: wrap64_def)

lemma wrap64_overflow:
  assumes "2 ^ 63 \<le> x" and "x < 2 ^ 64"
  shows "wrap64 x = x - 2 ^ 64"
proof -
  have "(x + 2 ^ 63) mod 2 ^ 64 = (x - 2 ^ 63 + 2 ^ 64) mod 2 ^ 64"
    by (simp add: add.commute)
  also have "\<dots> = x - 2 ^ 63" using assms by (simp only: mod_add_self2) (simp add: mod_pos_pos_trivial)
  finally show ?thesis by (simp add: wrap64_def)
qed

lemma wrap64_idem [simp]: "wrap64 (wrap64 x) = wrap64 x"
  by (rule wrap64_id) (rule wrap64_in_range)

text \<open>Durations, in nanoseconds, as the \<^verbatim>\<open>time\<close> package defines them.\<close>

abbreviation Millisecond :: int where "Millisecond \<equiv> 1000000"
abbreviation Second :: int where "Second \<equiv> 1000000000"
abbreviation Minute :: int where "Minute \<equiv> 60000000000"

section \<open>Searching and trimming byte strings\<close>

primrec IndexByte :: "string \<Rightarrow> char \<Rightarrow> nat option" where
  "IndexByte [] c = None"
| "IndexByte (x # xs) c = (if x = c then Some 0 else map_option Suc (IndexByte xs c))"

primrec LastIndexByte :: "string \<Rightarrow> char \<Rightarrow> nat option" where
  "LastIndexByte [] c = None"
| "LastIndexByte (x # xs) c =
     (case LastIndexByte xs c of
        Some i \<Rightarrow> Some (Suc i)
      | None \<Rightarrow> if x = c then Some 0 else None)"

definition TrimLeft :: "string \<Rightarrow> string \<Rightarrow> string" where
  "TrimLeft s cutset = dropWhile (\<lambda>c. c \<in> set cutset) s"

definition TrimRight :: "string \<Rightarrow> string \<Rightarrow> string" where
  "TrimRight s cutset = rev (dropWhile (\<lambda>c. c \<in> set cutset) (rev s))"

definition HasPrefix :: "string \<Rightarrow> string \<Rightarrow> bool" where
  "HasPrefix s p = (take (length p) s = p)"

definition TrimPrefix :: "string \<Rightarrow> string \<Rightarrow> string" where
  "TrimPrefix s p = (if HasPrefix s p then drop (length p) s else s)"

definition ContainsAny :: "string \<Rightarrow> string \<Rightarrow> bool" where
  "ContainsAny s chars = list_ex (\<lambda>c. c \<in> set chars) s"

text \<open>
  \<^verbatim>\<open>strings.Split\<close> for a non-empty separator: cut at every non-overlapping
  occurrence, scanning from the left. (Every separator in the program is a non-empty
  literal; Go explodes the string for an empty one.)
\<close>

function split_from :: "string \<Rightarrow> string \<Rightarrow> string \<Rightarrow> string list" where
  "split_from sep acc [] = [acc]"
| "split_from sep acc (x # xs) =
     (if take (length sep) (x # xs) = sep
      then acc # split_from sep [] (drop (length sep - 1) xs)
      else split_from sep (acc @ [x]) xs)"
  by pat_completeness auto
termination
  by (relation "measure (\<lambda>(sep, acc, s). length s)") auto

definition Split :: "string \<Rightarrow> string \<Rightarrow> string list" where
  "Split s sep = split_from sep [] s"

lemma IndexByte_None_iff [go_str]: "IndexByte s c = None \<longleftrightarrow> c \<notin> set s"
  by (induction s) auto

lemma IndexByte_append_notin [go_str]:
  "c \<notin> set a \<Longrightarrow> IndexByte (a @ b) c = map_option ((+) (length a)) (IndexByte b c)"
proof (induction a)
  case Nil
  then show ?case by (simp add: option.map_ident)
next
  case (Cons x a)
  then show ?case by (auto simp: option.map_comp o_def)
qed

lemma IndexByte_Some_split:
  "IndexByte s c = Some i \<Longrightarrow>
     i < length s \<and> s ! i = c \<and> c \<notin> set (take i s) \<and> s = take i s @ c # drop (Suc i) s"
proof (induction s arbitrary: i)
  case Nil
  then show ?case by simp
next
  case (Cons x s)
  then show ?case by (cases i) (auto split: if_splits)
qed

lemma LastIndexByte_None_iff [go_str]: "LastIndexByte s c = None \<longleftrightarrow> c \<notin> set s"
  by (induction s) (auto split: option.splits)

lemma LastIndexByte_sep [go_str]:
  "c \<notin> set b \<Longrightarrow> LastIndexByte (a @ c # b) c = Some (length a)"
  by (induction a) (auto simp: LastIndexByte_None_iff split: option.splits)

lemma LastIndexByte_Some_split:
  "LastIndexByte s c = Some i \<Longrightarrow>
     i < length s \<and> s ! i = c \<and> c \<notin> set (drop (Suc i) s) \<and> s = take i s @ c # drop (Suc i) s"
proof (induction s arbitrary: i)
  case Nil
  then show ?case by simp
next
  case (Cons x s)
  show ?case
  proof (cases "LastIndexByte s c")
    case None
    with Cons.prems show ?thesis
      by (auto simp: LastIndexByte_None_iff split: if_splits)
  next
    case (Some j)
    with Cons.prems have "i = Suc j" by simp
    with Cons.IH [OF Some] show ?thesis by simp
  qed
qed

lemma dropWhile_all_append: "(\<And>x. x \<in> set a \<Longrightarrow> P x) \<Longrightarrow> dropWhile P (a @ b) = dropWhile P b"
  by (induction a) auto

lemma TrimRight_append_cut [go_str]:
  "set b \<subseteq> set cutset \<Longrightarrow> TrimRight (a @ b) cutset = TrimRight a cutset"
  by (simp add: TrimRight_def) (subst dropWhile_all_append, auto)

lemma TrimRight_id [go_str]:
  "s = [] \<or> last s \<notin> set cutset \<Longrightarrow> TrimRight s cutset = s"
  by (cases s rule: rev_cases) (auto simp: TrimRight_def)

lemma TrimRight_last: "TrimRight s cutset \<noteq> [] \<Longrightarrow> last (TrimRight s cutset) \<notin> set cutset"
proof -
  assume "TrimRight s cutset \<noteq> []"
  then have ne: "dropWhile (\<lambda>c. c \<in> set cutset) (rev s) \<noteq> []"
    by (simp add: TrimRight_def)
  from hd_dropWhile [OF ne] ne show ?thesis
    by (simp add: TrimRight_def last_rev)
qed

lemma TrimLeft_id [go_str]: "s = [] \<or> hd s \<notin> set cutset \<Longrightarrow> TrimLeft s cutset = s"
  by (cases s) (auto simp: TrimLeft_def)

lemma HasPrefix_append [simp]: "HasPrefix (p @ s) p"
  by (simp add: HasPrefix_def)

lemma HasPrefix_iff: "HasPrefix s p \<longleftrightarrow> (\<exists>t. s = p @ t)"
  by (metis HasPrefix_append HasPrefix_def append_take_drop_id)

lemma TrimPrefix_append [simp]: "TrimPrefix (p @ s) p = s"
  by (simp add: TrimPrefix_def)

text \<open>Joining the pieces with the separator gives the string back.\<close>

fun join :: "string \<Rightarrow> string list \<Rightarrow> string" where
  "join sep [] = []"
| "join sep [x] = x"
| "join sep (x # xs) = x @ sep @ join sep xs"

lemma split_from_nonempty [simp]: "split_from sep acc s \<noteq> []"
  by (induction sep acc s rule: split_from.induct) auto

lemma join_Cons: "xs \<noteq> [] \<Longrightarrow> join sep (x # xs) = x @ sep @ join sep xs"
  by (cases xs) auto

lemma join_split_from: "sep \<noteq> [] \<Longrightarrow> join sep (split_from sep acc s) = acc @ s"
proof (induction sep acc s rule: split_from.induct)
  case (1 sep acc)
  then show ?case by simp
next
  case (2 sep acc x xs)
  show ?case
  proof (cases "take (length sep) (x # xs) = sep")
    case True
    have "sep @ drop (length sep - 1) xs = x # xs"
      using True 2 by (metis One_nat_def append_take_drop_id drop_Cons' length_0_conv)
    with 2 True show ?thesis by (simp add: join_Cons)
  next
    case False
    with 2 show ?thesis by simp
  qed
qed

lemma join_Split: "sep \<noteq> [] \<Longrightarrow> join sep (Split s sep) = s"
  by (simp add: Split_def join_split_from)

text \<open>Splitting at a separator that starts with a byte no field holds gives the fields back.\<close>

lemma split_from_skip: "s \<notin> set l \<Longrightarrow> split_from (s # sep) acc (l @ r) = split_from (s # sep) (acc @ l) r"
  by (induction l arbitrary: acc) auto

lemma Split_join:
  assumes "xs \<noteq> []" "\<forall>x\<in>set xs. s \<notin> set x"
  shows "Split (join (s # sep) xs) (s # sep) = xs"
proof -
  have "split_from (s # sep) [] (join (s # sep) xs) = xs"
    using assms
  proof (induction xs)
    case Nil
    then show ?case by simp
  next
    case (Cons x xs)
    show ?case
    proof (cases xs)
      case Nil
      with Cons.prems split_from_skip [of s x sep "[]" "[]"] show ?thesis by simp
    next
      case (Cons y ys)
      then have "split_from (s # sep) [] (join (s # sep) (x # xs)) =
          split_from (s # sep) x ((s # sep) @ join (s # sep) xs)"
        using Cons.prems split_from_skip [of s x sep "[]" "(s # sep) @ join (s # sep) xs"]
        by (simp add: join_Cons)
      also have "\<dots> = x # split_from (s # sep) [] (join (s # sep) xs)" by simp
      finally show ?thesis using Cons.IH Cons.prems Cons by simp
    qed
  qed
  then show ?thesis by (simp add: Split_def)
qed

end
