(* ===== verification/GoText.thy ===== *)
theory GoText
  imports Prelude
begin

text \<open>
  The parts of Go's \<^verbatim>\<open>strconv\<close>, \<^verbatim>\<open>unicode/utf8\<close> and
  \<^verbatim>\<open>strings\<close> packages that interpret text: decimal and hexadecimal numbers, UTF-8
  decoding, case mapping and \<^verbatim>\<open>TrimSpace\<close>. Go's case mapping of non-ASCII code
  points is a table of the Unicode standard; it is the parameter \<open>unicode\<close> of the
  functions that use it. Everything else is computed.
\<close>

section \<open>Decimal and hexadecimal numbers\<close>

datatype num_error = ErrSyntax | ErrRange

definition digit_of :: "char \<Rightarrow> int option" where
  "digit_of c = (let n = of_char c in if 48 \<le> n \<and> n \<le> 57 then Some (n - 48) else None)"

definition hex_digit_of :: "char \<Rightarrow> int option" where
  "hex_digit_of c =
     (let n = of_char c in
      if 48 \<le> n \<and> n \<le> 57 then Some (n - 48)
      else if 97 \<le> n \<and> n \<le> 102 then Some (n - 87)
      else if 65 \<le> n \<and> n \<le> 70 then Some (n - 55)
      else None)"

text \<open>
  The digit loop of \<^verbatim>\<open>strconv.ParseUint(s, 10, 64)\<close>: a bad byte stops it with a
  syntax error, an accumulator past 64 bits with a range error, whichever comes first.
\<close>

primrec parse_digits :: "int \<Rightarrow> string \<Rightarrow> num_error + int" where
  "parse_digits n [] = Inr n"
| "parse_digits n (c # cs) =
     (case digit_of c of
        None \<Rightarrow> Inl ErrSyntax
      | Some d \<Rightarrow> if 2 ^ 64 \<le> 10 * n + d then Inl ErrRange else parse_digits (10 * n + d) cs)"

definition ParseUint10 :: "string \<Rightarrow> num_error + int" where
  "ParseUint10 s = (if s = [] then Inl ErrSyntax else parse_digits 0 s)"

text \<open>\<^verbatim>\<open>strconv.ParseInt(s, 10, 64)\<close>; \<^verbatim>\<open>strconv.Atoi\<close> agrees with it.\<close>

definition ParseInt10 :: "string \<Rightarrow> num_error + int" where
  "ParseInt10 s =
     (if s = [] then Inl ErrSyntax
      else
        let neg = (hd s = CHR ''-'');
            body = (if hd s = CHR ''+'' \<or> hd s = CHR ''-'' then tl s else s)
        in (case ParseUint10 body of
              Inl e \<Rightarrow> Inl e
            | Inr un \<Rightarrow>
                if \<not> neg \<and> 2 ^ 63 \<le> un then Inl ErrRange
                else if neg \<and> 2 ^ 63 < un then Inl ErrRange
                else Inr (if neg then - un else un)))"

abbreviation Atoi :: "string \<Rightarrow> num_error + int" where
  "Atoi \<equiv> ParseInt10"

definition digit_char :: "int \<Rightarrow> char" where
  "digit_char d = char_of (48 + d)"

text \<open>Decimal digits of a non-negative number.\<close>

function show_pos :: "int \<Rightarrow> string" where
  "show_pos n =
     (if n < 10 then [digit_char n] else show_pos (n div 10) @ [digit_char (n mod 10)])"
  by pat_completeness auto
termination
  by (relation "measure nat") auto

declare show_pos.simps [simp del]

definition Itoa :: "int \<Rightarrow> string" where
  "Itoa n = (if n < 0 then CHR ''-'' # show_pos (- n) else show_pos n)"

text \<open>Zero-padded decimal of fixed width, as \<^verbatim>\<open>%0wd\<close> prints it for small numbers.\<close>

primrec pad_int :: "nat \<Rightarrow> int \<Rightarrow> string" where
  "pad_int 0 n = []"
| "pad_int (Suc w) n = pad_int w (n div 10) @ [digit_char (n mod 10)]"

text \<open>\<^verbatim>\<open>strconv.ParseUint(s, 16, 8)\<close> on a two-byte string.\<close>

definition hex_byte :: "char \<Rightarrow> char \<Rightarrow> char option" where
  "hex_byte a b =
     (case (hex_digit_of a, hex_digit_of b) of
        (Some x, Some y) \<Rightarrow> Some (char_of (16 * x + y))
      | _ \<Rightarrow> None)"

section \<open>UTF-8\<close>

abbreviation rune_error :: int where "rune_error \<equiv> 0xFFFD"

definition cont_byte :: "int \<Rightarrow> bool" where
  "cont_byte b \<longleftrightarrow> 0x80 \<le> b \<and> b \<le> 0xBF"

text \<open>
  \<^verbatim>\<open>utf8.DecodeRuneInString\<close>: the rune at the front and the number of bytes it takes;
  an invalid encoding gives \<^verbatim>\<open>U+FFFD\<close> and one byte.
\<close>

definition rune_tail :: "int \<Rightarrow> nat" where
  "rune_tail b0 =
     (if 0xC2 \<le> b0 \<and> b0 \<le> 0xDF then 1
      else if 0xE0 \<le> b0 \<and> b0 \<le> 0xEF then 2
      else if 0xF0 \<le> b0 \<and> b0 \<le> 0xF4 then 3
      else 0)"

definition rune_lead :: "nat \<Rightarrow> int" where
  "rune_lead n = (if n = 1 then 0xC0 else if n = 2 then 0xE0 else 0xF0)"

definition tail_ok :: "int \<Rightarrow> int list \<Rightarrow> bool" where
  "tail_ok b0 bs \<longleftrightarrow>
     bs \<noteq> [] \<and> list_all cont_byte bs \<and>
     (b0 = 0xE0 \<longrightarrow> 0xA0 \<le> hd bs) \<and> (b0 = 0xED \<longrightarrow> hd bs \<le> 0x9F) \<and>
     (b0 = 0xF0 \<longrightarrow> 0x90 \<le> hd bs) \<and> (b0 = 0xF4 \<longrightarrow> hd bs \<le> 0x8F)"

definition decode_rune :: "string \<Rightarrow> int \<times> nat" where
  "decode_rune s =
     (case s of
        [] \<Rightarrow> (rune_error, 0)
      | c # cs \<Rightarrow>
          let b0 = of_char c; n = rune_tail b0; bs = map of_char (take n cs) in
          if b0 < 0x80 then (b0, 1)
          else if length bs = n \<and> tail_ok b0 bs
          then (foldl (\<lambda>r b. 64 * r + (b - 0x80)) (b0 - rune_lead n) bs, Suc n)
          else (rune_error, 1))"

definition valid_rune :: "int \<Rightarrow> bool" where
  "valid_rune r \<longleftrightarrow> 0 \<le> r \<and> r < 0xD800 \<or> 0xDFFF < r \<and> r \<le> 0x10FFFF"

definition encode_rune :: "int \<Rightarrow> string" where
  "encode_rune r0 =
     (let r = (if valid_rune r0 then r0 else rune_error) in
      map char_of
        (if r < 0x80 then [r]
         else if r < 0x800 then [0xC0 + r div 64, 0x80 + r mod 64]
         else if r < 0x10000 then [0xE0 + r div 4096, 0x80 + r div 64 mod 64, 0x80 + r mod 64]
         else [0xF0 + r div 262144, 0x80 + r div 4096 mod 64, 0x80 + r div 64 mod 64, 0x80 + r mod 64]))"

lemma decode_rune_width: "s \<noteq> [] \<Longrightarrow> 0 < snd (decode_rune s)"
  by (cases s) (auto simp: decode_rune_def Let_def)

function runes :: "string \<Rightarrow> int list" where
  "runes s = (if s = [] then [] else fst (decode_rune s) # runes (drop (snd (decode_rune s)) s))"
  by pat_completeness auto
termination
  by (relation "measure length") (auto simp: decode_rune_width)

declare runes.simps [simp del]

section \<open>Case mapping\<close>

record unicode =
  upper_rune :: "int \<Rightarrow> int"
  lower_rune :: "int \<Rightarrow> int"

definition is_ascii :: "string \<Rightarrow> bool" where
  "is_ascii s = list_all (\<lambda>c. of_char c < (0x80 :: int)) s"

definition ascii_upper :: "int \<Rightarrow> int" where
  "ascii_upper n = (if 97 \<le> n \<and> n \<le> 122 then n - 32 else n)"

definition ascii_lower :: "int \<Rightarrow> int" where
  "ascii_lower n = (if 65 \<le> n \<and> n \<le> 90 then n + 32 else n)"

text \<open>\<^verbatim>\<open>strings.ToUpper\<close> and \<^verbatim>\<open>strings.ToLower\<close>: bytewise on ASCII
  strings, rune by rune (with invalid bytes replaced by \<^verbatim>\<open>U+FFFD\<close>) otherwise.\<close>

definition ToUpper :: "unicode \<Rightarrow> string \<Rightarrow> string" where
  "ToUpper U s =
     (if is_ascii s then map (\<lambda>c. char_of (ascii_upper (of_char c))) s
      else concat (map (\<lambda>r. encode_rune (if r < 0x80 then ascii_upper r else upper_rune U r)) (runes s)))"

definition ToLower :: "unicode \<Rightarrow> string \<Rightarrow> string" where
  "ToLower U s =
     (if is_ascii s then map (\<lambda>c. char_of (ascii_lower (of_char c))) s
      else concat (map (\<lambda>r. encode_rune (if r < 0x80 then ascii_lower r else lower_rune U r)) (runes s)))"

section \<open>White space\<close>

text \<open>The UTF-8 encodings of the code points for which \<^verbatim>\<open>unicode.IsSpace\<close> holds.\<close>

definition space_codes :: "string list" where
  "space_codes =
     [[TAB], [LF], [CHR 0x0B], [CHR 0x0C], [CR], [SP],
      [CHR 0xC2, CHR 0x85], [CHR 0xC2, CHR 0xA0], [CHR 0xE1, CHR 0x9A, CHR 0x80],
      [CHR 0xE2, CHR 0x80, CHR 0x80], [CHR 0xE2, CHR 0x80, CHR 0x81], [CHR 0xE2, CHR 0x80, CHR 0x82],
      [CHR 0xE2, CHR 0x80, CHR 0x83], [CHR 0xE2, CHR 0x80, CHR 0x84], [CHR 0xE2, CHR 0x80, CHR 0x85],
      [CHR 0xE2, CHR 0x80, CHR 0x86], [CHR 0xE2, CHR 0x80, CHR 0x87], [CHR 0xE2, CHR 0x80, CHR 0x88],
      [CHR 0xE2, CHR 0x80, CHR 0x89], [CHR 0xE2, CHR 0x80, CHR 0x8A],
      [CHR 0xE2, CHR 0x80, CHR 0xA8], [CHR 0xE2, CHR 0x80, CHR 0xA9], [CHR 0xE2, CHR 0x80, CHR 0xAF],
      [CHR 0xE2, CHR 0x81, CHR 0x9F], [CHR 0xE3, CHR 0x80, CHR 0x80]]"

definition lead_space :: "string \<Rightarrow> nat" where
  "lead_space s =
     (case find (HasPrefix s) space_codes of None \<Rightarrow> 0 | Some w \<Rightarrow> length w)"

definition trail_space :: "string \<Rightarrow> nat" where
  "trail_space s =
     (case find (\<lambda>w. HasPrefix (rev s) (rev w)) space_codes of None \<Rightarrow> 0 | Some w \<Rightarrow> length w)"

function trim_left_space :: "string \<Rightarrow> string" where
  "trim_left_space s =
     (if s \<noteq> [] \<and> 0 < lead_space s then trim_left_space (drop (lead_space s) s) else s)"
  by pat_completeness auto
termination
  by (relation "measure length") auto

function trim_right_space :: "string \<Rightarrow> string" where
  "trim_right_space s =
     (if s \<noteq> [] \<and> 0 < trail_space s then trim_right_space (take (length s - trail_space s) s) else s)"
  by pat_completeness auto
termination
  by (relation "measure length") auto

declare trim_left_space.simps [simp del] trim_right_space.simps [simp del]

definition TrimSpace :: "string \<Rightarrow> string" where
  "TrimSpace s = trim_right_space (trim_left_space s)"

text \<open>\<open>space_codes\<close> lists the encodings of the White\_Space code points.\<close>

lemma space_codes_runes:
  "space_codes = map encode_rune
     [0x09, 0x0A, 0x0B, 0x0C, 0x0D, 0x20, 0x85, 0xA0, 0x1680,
      0x2000, 0x2001, 0x2002, 0x2003, 0x2004, 0x2005, 0x2006, 0x2007, 0x2008, 0x2009, 0x200A,
      0x2028, 0x2029, 0x202F, 0x205F, 0x3000]"
  by (simp add: space_codes_def encode_rune_def valid_rune_def char_of_def)

section \<open>Facts about numbers\<close>

lemma digit_char_code: "0 \<le> d \<Longrightarrow> d < 10 \<Longrightarrow> of_char (digit_char d) = 48 + d"
  by (simp add: digit_char_def)

lemma digit_of_digit_char [go_str]: "0 \<le> d \<Longrightarrow> d < 10 \<Longrightarrow> digit_of (digit_char d) = Some d"
  by (simp add: digit_of_def digit_char_code)

lemma digit_of_bounds: "digit_of c = Some d \<Longrightarrow> 0 \<le> d \<and> d < 10"
  by (auto simp: digit_of_def Let_def split: if_splits)

lemma digit_of_nondigits [go_str]:
  "digit_of CHR ''-'' = None" "digit_of CHR ''+'' = None" "digit_of CHR ''.'' = None"
  "digit_of SP = None" "digit_of CHR ''['' = None" "digit_of CHR '']'' = None"
  "digit_of CR = None" "digit_of LF = None"
  by (simp_all add: digit_of_def)

definition all_digits :: "string \<Rightarrow> bool" where
  "all_digits s = list_all (\<lambda>c. digit_of c \<noteq> None) s"

lemma all_digits_notin [go_str]: "all_digits s \<Longrightarrow> digit_of c = None \<Longrightarrow> c \<notin> set s"
  by (auto simp: all_digits_def list_all_iff)

lemma all_digits_append [simp]: "all_digits (a @ b) \<longleftrightarrow> all_digits a \<and> all_digits b"
  by (simp add: all_digits_def)

lemma all_digits_Nil [simp]: "all_digits []"
  by (simp add: all_digits_def)

lemma all_digits_digit_char [simp]: "0 \<le> d \<Longrightarrow> d < 10 \<Longrightarrow> all_digits [digit_char d]"
  by (simp add: all_digits_def digit_of_digit_char)

lemma all_digits_show_pos [simp]: "0 \<le> n \<Longrightarrow> all_digits (show_pos n)"
proof (induction n rule: show_pos.induct)
  case (1 n)
  then show ?case by (subst show_pos.simps) simp
qed

lemma show_pos_nonempty [simp]: "show_pos n \<noteq> []"
  by (subst show_pos.simps) simp

lemma all_digits_pad_int [simp]: "all_digits (pad_int w n)"
  by (induction w arbitrary: n) simp_all

lemma length_pad_int [simp]: "length (pad_int w n) = w"
  by (induction w arbitrary: n) simp_all

lemma parse_digits_append [go_str]:
  "parse_digits n (a @ b) =
     (case parse_digits n a of Inl e \<Rightarrow> Inl e | Inr m \<Rightarrow> parse_digits m b)"
  by (induction a arbitrary: n) (auto split: option.splits)

lemma parse_digits_snoc:
  "parse_digits n a = Inr m \<Longrightarrow> 0 \<le> d \<Longrightarrow> d < 10 \<Longrightarrow> 10 * m + d < 2 ^ 64 \<Longrightarrow>
     parse_digits n (a @ [digit_char d]) = Inr (10 * m + d)"
  by (simp add: parse_digits_append digit_of_digit_char)

lemma parse_digits_show_pos [go_str]:
  "0 \<le> n \<Longrightarrow> n < 2 ^ 64 \<Longrightarrow> parse_digits 0 (show_pos n) = Inr n"
proof (induction n rule: show_pos.induct)
  case (1 n)
  show ?case
  proof (cases "n < 10")
    case True
    with "1.prems" show ?thesis by (subst show_pos.simps) (simp add: digit_of_digit_char)
  next
    case False
    have "0 \<le> n div 10" and "n div 10 < 2 ^ 64" using "1.prems" by linarith+
    with False "1.IH" have "parse_digits 0 (show_pos (n div 10)) = Inr (n div 10)" by simp
    moreover have "10 * (n div 10) + n mod 10 = n" by simp
    ultimately have "parse_digits 0 (show_pos (n div 10) @ [digit_char (n mod 10)]) = Inr n"
      using "1.prems" parse_digits_snoc [of 0 "show_pos (n div 10)" "n div 10" "n mod 10"] by simp
    with False show ?thesis by (subst show_pos.simps) simp
  qed
qed

lemma parse_digits_pad_int [go_str]:
  "0 \<le> m \<Longrightarrow> 0 \<le> n \<Longrightarrow> m * 10 ^ w + n < 2 ^ 64 \<Longrightarrow> n < 10 ^ w \<Longrightarrow>
     parse_digits m (pad_int w n) = Inr (m * 10 ^ w + n)"
proof (induction w arbitrary: n)
  case 0
  then show ?case by simp
next
  case (Suc w)
  have split: "10 * (m * 10 ^ w + n div 10) + n mod 10 = m * 10 ^ Suc w + n"
    by (simp add: algebra_simps)
  have "0 \<le> m * 10 ^ w + n div 10" using Suc.prems by simp
  moreover have "0 \<le> n mod 10" by simp
  ultimately have "m * 10 ^ w + n div 10 \<le> m * 10 ^ Suc w + n"
    unfolding split [symmetric] by simp
  with Suc.prems(3) have "m * 10 ^ w + n div 10 < 2 ^ 64" by simp
  moreover have "n div 10 < 10 ^ w" using Suc.prems(4) by simp
  ultimately have "parse_digits m (pad_int w (n div 10)) = Inr (m * 10 ^ w + n div 10)"
    using Suc.prems by (intro Suc.IH) simp_all
  from parse_digits_snoc [OF this, of "n mod 10"] show ?case
    using Suc.prems(3) split by simp
qed

lemma parse_digits_all_digits: "parse_digits n s = Inr m \<Longrightarrow> all_digits s"
  by (induction s arbitrary: n) (auto simp: all_digits_def split: option.splits if_splits)

lemma parse_digits_bounds:
  "parse_digits n s = Inr m \<Longrightarrow> 0 \<le> n \<Longrightarrow> 0 \<le> m \<and> m < (n + 1) * 10 ^ length s"
proof (induction s arbitrary: n)
  case Nil
  then show ?case by simp
next
  case (Cons c s)
  then obtain d where d: "digit_of c = Some d" and m: "parse_digits (10 * n + d) s = Inr m"
    by (auto split: option.splits if_splits)
  have IH: "0 \<le> m \<and> m < (10 * n + d + 1) * 10 ^ length s"
    using Cons.prems digit_of_bounds [OF d] by (intro Cons.IH [OF m]) simp
  have "(10 * n + d + 1) * 10 ^ length s \<le> (10 * n + 10) * 10 ^ length s"
    using digit_of_bounds [OF d] by (intro mult_right_mono) simp_all
  also have "\<dots> = (n + 1) * 10 ^ length (c # s)" by (simp add: algebra_simps)
  finally show ?case using IH by linarith
qed

lemma ParseInt10_range: "ParseInt10 s = Inr n \<Longrightarrow> int64_range n"
proof -
  assume n: "ParseInt10 s = Inr n"
  define body where "body = (if hd s = CHR ''+'' \<or> hd s = CHR ''-'' then tl s else s)"
  from n obtain un where un: "ParseUint10 body = Inr un"
    by (auto simp: ParseInt10_def Let_def body_def split: if_splits sum.splits)
  then have "0 \<le> un"
    by (auto simp: ParseUint10_def dest: parse_digits_bounds split: if_splits)
  with n un show ?thesis
    by (auto simp: ParseInt10_def Let_def body_def split: if_splits sum.splits)
qed

lemma ParseInt10_digits [go_str]:
  "s \<noteq> [] \<Longrightarrow> all_digits s \<Longrightarrow> parse_digits 0 s = Inr n \<Longrightarrow> n < 2 ^ 63 \<Longrightarrow> ParseInt10 s = Inr n"
proof (cases s)
  case (Cons c cs)
  assume "all_digits s" and n: "parse_digits 0 s = Inr n" "n < 2 ^ 63"
  with Cons have "c \<noteq> CHR ''-''" and "c \<noteq> CHR ''+''"
    by (auto simp: all_digits_def digit_of_nondigits)
  with Cons n show ?thesis
    by (simp add: ParseInt10_def ParseUint10_def Let_def del: parse_digits.simps)
qed simp

lemma ParseInt10_show_pos [go_str]: "0 \<le> n \<Longrightarrow> n < 2 ^ 63 \<Longrightarrow> ParseInt10 (show_pos n) = Inr n"
  by (rule ParseInt10_digits) (simp_all add: parse_digits_show_pos)

text \<open>Printing a 64-bit integer and reading it back gives the integer.\<close>

lemma ParseInt10_Itoa: "int64_range n \<Longrightarrow> ParseInt10 (Itoa n) = Inr n"
proof (cases "n < 0")
  case True
  assume "int64_range n"
  with True show ?thesis
    by (simp add: Itoa_def ParseInt10_def ParseUint10_def parse_digits_show_pos)
next
  case False
  assume "int64_range n"
  with False show ?thesis by (simp add: Itoa_def ParseInt10_show_pos)
qed

section \<open>Facts about UTF-8 and case mapping\<close>

lemmas rune_defs = decode_rune_def rune_tail_def rune_lead_def tail_ok_def cont_byte_def

lemma decode_rune_2:
  assumes "2 \<le> a" "a < 32" "0 \<le> b" "b < 64"
  shows "decode_rune (map char_of [0xC0 + a, 0x80 + b] @ s) = (64 * a + b, 2)"
  using assms by (simp add: rune_defs)

lemma decode_rune_3:
  assumes "0 \<le> a" "a < 16" "0 \<le> b" "b < 64" "0 \<le> c" "c < 64" "a = 0 \<longrightarrow> 32 \<le> b" "a = 13 \<longrightarrow> b < 32"
  shows "decode_rune (map char_of [0xE0 + a, 0x80 + b, 0x80 + c] @ s) = (4096 * a + 64 * b + c, 3)"
  using assms by (auto simp: rune_defs numeral_2_eq_2)

lemma decode_rune_4:
  assumes "0 \<le> a" "a < 5" "0 \<le> b" "b < 64" "0 \<le> c" "c < 64" "0 \<le> d" "d < 64" "a = 0 \<longrightarrow> 16 \<le> b" "a = 4 \<longrightarrow> b < 16"
  shows "decode_rune (map char_of [0xF0 + a, 0x80 + b, 0x80 + c, 0x80 + d] @ s) =
           (262144 * a + 4096 * b + 64 * c + d, 4)"
  using assms by (auto simp: rune_defs numeral_3_eq_3)

lemma base64_digits3: "4096 * (r div 4096) + 64 * (r div 64 mod 64) + r mod 64 = (r :: int)"
proof -
  have "r div 4096 = r div 64 div 64" by (simp add: zdiv_zmult2_eq [symmetric])
  then show ?thesis using div_mult_mod_eq [of r 64] div_mult_mod_eq [of "r div 64" 64] by linarith
qed

lemma base64_digits4:
  "262144 * (r div 262144) + 4096 * (r div 4096 mod 64) + 64 * (r div 64 mod 64) + r mod 64 = (r :: int)"
proof -
  have "r div 262144 = r div 4096 div 64" by (simp add: zdiv_zmult2_eq [symmetric])
  then show ?thesis using base64_digits3 [of r] div_mult_mod_eq [of "r div 4096" 64] by linarith
qed

text \<open>Decoding the encoding of a valid code point gives it back, with its width.\<close>

lemma decode_encode_rune:
  assumes "valid_rune r"
  shows "decode_rune (encode_rune r @ s) = (r, length (encode_rune r))"
proof -
  consider "0 \<le> r" "r < 0x80" | "0x80 \<le> r" "r < 0x800" | "0x800 \<le> r" "r < 0x10000"
    | "0x10000 \<le> r" "r \<le> 0x10FFFF"
    using assms unfolding valid_rune_def by linarith
  then show ?thesis
  proof cases
    case 1
    with assms show ?thesis by (simp add: encode_rune_def decode_rune_def Let_def)
  next
    case 2
    then have "2 \<le> r div 64" and "r div 64 < 32" by simp_all
    with decode_rune_2 [of "r div 64" "r mod 64" s] 2 assms show ?thesis
      by (simp add: encode_rune_def)
  next
    case 3
    note digits = base64_digits3 [of r]
    have low: "r mod 64 < 64" by simp
    have enc: "encode_rune r = map char_of [0xE0 + r div 4096, 0x80 + r div 64 mod 64, 0x80 + r mod 64]"
      using 3 assms by (simp add: encode_rune_def)
    have "0 \<le> r div 4096" and "r div 4096 < 16" using 3 by simp_all
    moreover have "r div 4096 = 0 \<longrightarrow> 32 \<le> r div 64 mod 64" using 3 digits low by linarith
    moreover have "r div 4096 = 13 \<longrightarrow> r div 64 mod 64 < 32"
      using assms digits low unfolding valid_rune_def by linarith
    ultimately have "decode_rune (encode_rune r @ s) =
        (4096 * (r div 4096) + 64 * (r div 64 mod 64) + r mod 64, 3)"
      unfolding enc by (intro decode_rune_3) simp_all
    then show ?thesis unfolding digits by (simp add: enc)
  next
    case 4
    note digits = base64_digits4 [of r]
    have low: "r mod 64 < 64" "r div 64 mod 64 < 64" by simp_all
    have enc: "encode_rune r = map char_of [0xF0 + r div 262144, 0x80 + r div 4096 mod 64,
                                 0x80 + r div 64 mod 64, 0x80 + r mod 64]"
      using 4 assms by (simp add: encode_rune_def)
    have "0 \<le> r div 262144" and "r div 262144 < 5" using 4 by simp_all
    moreover have "r div 262144 = 0 \<longrightarrow> 16 \<le> r div 4096 mod 64" using 4 digits low by linarith
    moreover have "r div 262144 = 4 \<longrightarrow> r div 4096 mod 64 < 16" using 4 digits low by linarith
    ultimately have "decode_rune (encode_rune r @ s) =
        (262144 * (r div 262144) + 4096 * (r div 4096 mod 64) + 64 * (r div 64 mod 64) + r mod 64, 4)"
      unfolding enc by (intro decode_rune_4) simp_all
    then show ?thesis unfolding digits by (simp add: enc)
  qed
qed

lemma of_char_nonneg [simp]: "0 \<le> (of_char c :: int)"
  by (cases c) simp

lemma of_char_less_256 [simp]: "(of_char c :: int) < 256"
  by (cases c) (simp add: of_bool_def)

text \<open>The bytes of a rune that is not a replaced error are all outside ASCII, or the rune is one byte.\<close>

lemma decode_rune_bytes:
  assumes "s \<noteq> []" and "0x80 \<le> (of_char (hd s) :: int)"
    and "\<not> (fst (decode_rune s) = rune_error \<and> snd (decode_rune s) = 1)"
    and "x \<in> set (take (snd (decode_rune s)) s)"
  shows "0x80 \<le> (of_char x :: int)"
proof -
  obtain c cs where s: "s = c # cs" using assms(1) by (cases s) auto
  define n where "n = rune_tail (of_char c)"
  have "\<not> of_char c < (0x80 :: int)" using assms(2) s by simp
  with assms(3) have ok: "tail_ok (of_char c) (map of_char (take n cs))" "snd (decode_rune s) = Suc n"
    unfolding s decode_rune_def n_def by (auto simp: Let_def split: if_splits)
  then have "\<forall>y \<in> set (take n cs). 0x80 \<le> (of_char y :: int)"
    by (auto simp: tail_ok_def list_all_iff cont_byte_def)
  moreover have "x = c \<or> x \<in> set (take n cs)" using assms(4) ok(2) unfolding s by auto
  ultimately show ?thesis using assms(2) s by auto
qed

lemma is_ascii_append [simp]: "is_ascii (a @ b) \<longleftrightarrow> is_ascii a \<and> is_ascii b"
  by (simp add: is_ascii_def)

lemma ascii_upper_idem [simp]: "ascii_upper (ascii_upper n) = ascii_upper n"
  by (auto simp: ascii_upper_def)

lemma ascii_upper_bound: "n < 0x80 \<Longrightarrow> ascii_upper n < 0x80"
  by (auto simp: ascii_upper_def)

lemma ascii_upper_nonneg: "0 \<le> n \<Longrightarrow> 0 \<le> ascii_upper n"
  by (auto simp: ascii_upper_def)

lemma ascii_upper_mod [simp]:
  "0 \<le> n \<Longrightarrow> n < 0x80 \<Longrightarrow> ascii_upper n mod 256 = ascii_upper n"
  using ascii_upper_bound [of n] ascii_upper_nonneg [of n] by simp

lemma is_ascii_ToUpper: "is_ascii s \<Longrightarrow> is_ascii (ToUpper U s)"
  by (auto simp: ToUpper_def is_ascii_def list_all_iff ascii_upper_bound)

lemma ToUpper_idem_ascii: "is_ascii s \<Longrightarrow> ToUpper U (ToUpper U s) = ToUpper U s"
  using is_ascii_ToUpper [of s U]
  by (auto simp: ToUpper_def is_ascii_def list_all_iff ascii_upper_bound)

lemma ToUpper_Nil [simp]: "ToUpper U [] = []"
  by (simp add: ToUpper_def is_ascii_def)

lemma length_ToUpper_ascii: "is_ascii s \<Longrightarrow> length (ToUpper U s) = length s"
  by (simp add: ToUpper_def)

section \<open>Valid UTF-8\<close>

function valid_utf8 :: "string \<Rightarrow> bool" where
  "valid_utf8 s =
     (if s = [] then True
      else \<not> (fst (decode_rune s) = rune_error \<and> snd (decode_rune s) = 1) \<and>
           valid_utf8 (drop (snd (decode_rune s)) s))"
  by pat_completeness auto
termination
  by (relation "measure length") (auto simp: decode_rune_width)

declare valid_utf8.simps [simp del]

lemma valid_utf8_Nil [simp]: "valid_utf8 []"
  by (simp add: valid_utf8.simps)

lemma valid_utf8_ascii: "is_ascii s \<Longrightarrow> valid_utf8 s"
proof (induction s)
  case Nil
  then show ?case by simp
next
  case (Cons c s)
  then show ?case
    by (subst valid_utf8.simps) (auto simp: is_ascii_def decode_rune_def Let_def)
qed

lemma valid_utf8_encode_valid:
  assumes "valid_rune r" "valid_utf8 s"
  shows "valid_utf8 (encode_rune r @ s)"
proof -
  have w: "r = rune_error \<Longrightarrow> length (encode_rune r) \<noteq> 1"
    by (simp add: encode_rune_def valid_rune_def)
  show ?thesis
    using decode_encode_rune [OF assms(1), of s] assms(2) w
    by (subst valid_utf8.simps) auto
qed

lemma valid_rune_error: "valid_rune rune_error"
  by (simp add: valid_rune_def)

lemma encode_rune_invalid: "\<not> valid_rune r \<Longrightarrow> encode_rune r = encode_rune rune_error"
  by (simp add: encode_rune_def valid_rune_error)

lemma valid_utf8_encode: "valid_utf8 s \<Longrightarrow> valid_utf8 (encode_rune r @ s)"
  using valid_utf8_encode_valid [of r s] valid_utf8_encode_valid [OF valid_rune_error, of s]
    encode_rune_invalid [of r]
  by (cases "valid_rune r") simp_all

lemma valid_utf8_ToUpper: "valid_utf8 (ToUpper U s)"
proof (cases "is_ascii s")
  case True
  then show ?thesis by (intro valid_utf8_ascii is_ascii_ToUpper)
next
  case False
  have "valid_utf8 (concat (map (\<lambda>r. encode_rune (f r)) rs))" for f rs
    by (induction rs) (simp_all add: valid_utf8_encode)
  with False show ?thesis by (simp add: ToUpper_def)
qed

lemma is_ascii_show_pos: "0 \<le> n \<Longrightarrow> is_ascii (show_pos n)"
proof (induction n rule: show_pos.induct)
  case (1 n)
  have d: "is_ascii [digit_char k]" if "0 \<le> k" "k < 10" for k
    using that by (simp add: is_ascii_def digit_char_def)
  show ?case
    using 1 d [of "n mod 10"] d [of n] by (subst show_pos.simps) (auto simp: pos_imp_zdiv_nonneg_iff)
qed

lemma valid_utf8_Itoa [simp]: "valid_utf8 (Itoa n)"
  using is_ascii_show_pos [of n] is_ascii_show_pos [of "- n"]
  by (intro valid_utf8_ascii) (auto simp: Itoa_def is_ascii_def)

text \<open>The case tables that leave every non-ASCII rune as it is, for examples.\<close>

definition ascii_only :: unicode where
  "ascii_only = \<lparr>upper_rune = id, lower_rune = id\<rparr>"

end
