(* ===== verification/Config.thy ===== *)
theory Config
  imports GoText Complex_Main
begin

text \<open>
  The configuration of \<^verbatim>\<open>internal/config/config.go\<close>: its records, the defaults, the
  validation that also fills in missing values, and the environment overrides. Reading the file
  and decoding YAML into the defaults are parameters of \<open>Load\<close>. The environment is a map from
  variable names to values.
\<close>

section \<open>Records\<close>

record RedisConfig =
  rc_Network :: string
  rc_Address :: string
  rc_Username :: string
  rc_Password :: string
  rc_DialTimeout :: int
  rc_ReadTimeout :: int
  rc_BackoffMin :: int
  rc_BackoffMax :: int

record LogConfig =
  lc_Level :: string
  lc_Format :: string
  lc_File :: string

record FilterConfig =
  fc_IgnoredCommands :: "string list"

record RoleCheckConfig =
  rk_Enabled :: bool
  rk_Interval :: int
  rk_DialTimeout :: int
  rk_ReadTimeout :: int
  rk_AllowReplica :: bool

record RotationConfig =
  rot_MaxSizeMB :: int
  rot_MaxBackups :: int
  rot_MaxAgeDays :: int
  rot_Compress :: bool
  rot_LocalTime :: bool

record OutputConfig =
  oc_Type :: string
  oc_Enabled :: bool
  oc_Format :: string
  oc_Path :: string
  oc_Address :: string
  oc_Timeout :: int
  oc_Keepalive :: int
  oc_Rotation :: RotationConfig

record MetricsConfig =
  mt_Enabled :: bool
  mt_Address :: string
  mt_Path :: string
  mt_IgnoredCommands :: "string list"
  mt_TrackSourceIP :: bool

record RateLimitConfig =
  rl_Enabled :: bool
  rl_Window :: int
  rl_MaxAlerts :: int

record RetryConfig =
  rt_MaxAttempts :: int
  rt_InitialBackoff :: int
  rt_MaxBackoff :: int

record TelegramConfig =
  tc_Enabled :: bool
  tc_Endpoint :: string
  tc_BotToken :: string
  tc_ChatID :: string
  tc_ThreadID :: int
  tc_Timeout :: int

record WebhookConfig =
  wc_Enabled :: bool
  wc_URL :: string
  wc_Method :: string
  wc_Timeout :: int
  wc_Headers :: "(string \<times> string) list"

record PushgatewayConfig =
  pw_Enabled :: bool
  pw_URLs :: "string list"
  pw_Username :: string
  pw_Password :: string
  pw_Job :: string
  pw_Timeout :: int
  pw_Labels :: "(string \<times> string) list"

record AlertsConfig =
  ac_Enabled :: bool
  ac_SuspiciousCommands :: "string list"
  ac_Patterns :: "string list"
  ac_IgnoredSourceIPs :: "string list"
  ac_RateLimit :: RateLimitConfig
  ac_Retry :: RetryConfig
  ac_Telegram :: TelegramConfig
  ac_Webhook :: WebhookConfig
  ac_Pushgateway :: PushgatewayConfig

record SentryConfig =
  sc_Enabled :: bool
  sc_DSN :: string
  sc_Environment :: string
  sc_Release :: string
  sc_SampleRate :: rat
  sc_TracesSampleRate :: rat
  sc_AttachStacktrace :: bool

record PipelineConfig =
  pc_EventBuffer :: int
  pc_ConsumerBuffer :: int
  pc_DropOnFull :: bool

record Config =
  cfg_Redis :: RedisConfig
  cfg_Log :: LogConfig
  cfg_Filter :: FilterConfig
  cfg_RoleCheck :: RoleCheckConfig
  cfg_Outputs :: "OutputConfig list"
  cfg_Metrics :: MetricsConfig
  cfg_Alerts :: AlertsConfig
  cfg_Sentry :: SentryConfig
  cfg_Pipeline :: PipelineConfig

definition IgnoredSet :: "unicode \<Rightarrow> FilterConfig \<Rightarrow> string set" where
  "IgnoredSet U f = set (filter (\<lambda>c. c \<noteq> []) (map (\<lambda>c. ToUpper U (TrimSpace c)) (fc_IgnoredCommands f)))"

section \<open>Defaults\<close>

definition Default :: Config where
  "Default =
     \<lparr>cfg_Redis = \<lparr>rc_Network = ''unix'', rc_Address = ''/var/run/redis/redis.sock'', rc_Username = [],
        rc_Password = [], rc_DialTimeout = 5 * Second, rc_ReadTimeout = 0, rc_BackoffMin = Second,
        rc_BackoffMax = 30 * Second\<rparr>,
      cfg_Log = \<lparr>lc_Level = ''info'', lc_Format = ''json'', lc_File = []\<rparr>,
      cfg_Filter = \<lparr>fc_IgnoredCommands = []\<rparr>,
      cfg_RoleCheck = \<lparr>rk_Enabled = True, rk_Interval = 5 * Second, rk_DialTimeout = 3 * Second,
        rk_ReadTimeout = 3 * Second, rk_AllowReplica = False\<rparr>,
      cfg_Outputs = [],
      cfg_Metrics = \<lparr>mt_Enabled = True, mt_Address = '':9100'', mt_Path = ''/metrics'',
        mt_IgnoredCommands = [], mt_TrackSourceIP = True\<rparr>,
      cfg_Alerts = \<lparr>ac_Enabled = False, ac_SuspiciousCommands = [], ac_Patterns = [], ac_IgnoredSourceIPs = [],
        ac_RateLimit = \<lparr>rl_Enabled = True, rl_Window = 60 * Second, rl_MaxAlerts = 5\<rparr>,
        ac_Retry = \<lparr>rt_MaxAttempts = 3, rt_InitialBackoff = 500 * Millisecond, rt_MaxBackoff = 5 * Second\<rparr>,
        ac_Telegram = \<lparr>tc_Enabled = False, tc_Endpoint = [], tc_BotToken = [], tc_ChatID = [],
          tc_ThreadID = 0, tc_Timeout = 0\<rparr>,
        ac_Webhook = \<lparr>wc_Enabled = False, wc_URL = [], wc_Method = [], wc_Timeout = 0, wc_Headers = []\<rparr>,
        ac_Pushgateway = \<lparr>pw_Enabled = False, pw_URLs = [], pw_Username = [], pw_Password = [], pw_Job = [],
          pw_Timeout = 0, pw_Labels = []\<rparr>\<rparr>,
      cfg_Sentry = \<lparr>sc_Enabled = False, sc_DSN = [], sc_Environment = ''production'', sc_Release = [],
        sc_SampleRate = 1, sc_TracesSampleRate = 0, sc_AttachStacktrace = True\<rparr>,
      cfg_Pipeline = \<lparr>pc_EventBuffer = 10000, pc_ConsumerBuffer = 2000, pc_DropOnFull = True\<rparr>\<rparr>"

section \<open>Validation\<close>

datatype config_error =
    BadNetwork string
  | AddressRequired
  | BadLogLevel string
  | BadLogFormat string
  | OutputPathRequired nat
  | OutputAddressRequired nat string
  | OutputUnknownType nat string
  | OutputBadFormat nat
  | MetricsAddressRequired
  | TelegramIncomplete
  | WebhookURLRequired
  | PushgatewayURLsRequired
  | PushgatewayURLEmpty nat
  | InitialBackoffNegative
  | MaxBackoffNegative
  | InitialBackoffAboveMax
  | SentryDSNRequired
  | ReadFailed string
  | DecodeFailed string

definition and_then :: "'e + 'a \<Rightarrow> ('a \<Rightarrow> 'e + 'b) \<Rightarrow> 'e + 'b" where
  "and_then r f = (case r of Inl e \<Rightarrow> Inl e | Inr x \<Rightarrow> f x)"

definition RetryConfig_validate :: "RetryConfig \<Rightarrow> config_error + RetryConfig" where
  "RetryConfig_validate r =
     (let r1 = (if rt_MaxAttempts r \<le> 0 then r\<lparr>rt_MaxAttempts := 1\<rparr> else r) in
      if rt_InitialBackoff r1 < 0 then Inl InitialBackoffNegative
      else if rt_MaxBackoff r1 < 0 then Inl MaxBackoffNegative
      else if 0 < rt_MaxBackoff r1 \<and> rt_MaxBackoff r1 < rt_InitialBackoff r1 then Inl InitialBackoffAboveMax
      else Inr r1)"

definition validate_redis :: "RedisConfig \<Rightarrow> config_error + RedisConfig" where
  "validate_redis r =
     (if rc_Network r \<noteq> ''unix'' \<and> rc_Network r \<noteq> ''tcp'' then Inl (BadNetwork (rc_Network r))
      else if rc_Address r = [] then Inl AddressRequired
      else
        let r1 = (if rc_BackoffMin r \<le> 0 then r\<lparr>rc_BackoffMin := Second\<rparr> else r)
        in Inr (if rc_BackoffMax r1 < rc_BackoffMin r1 then r1\<lparr>rc_BackoffMax := rc_BackoffMin r1\<rparr> else r1))"

definition validate_log :: "unicode \<Rightarrow> LogConfig \<Rightarrow> config_error + unit" where
  "validate_log U l =
     (if ToLower U (lc_Level l) \<notin> {''debug'', ''info'', ''warn'', ''warning'', ''error''}
      then Inl (BadLogLevel (lc_Level l))
      else if ToLower U (lc_Format l) \<notin> {[], ''json'', ''text''} then Inl (BadLogFormat (lc_Format l))
      else Inr ())"

text \<open>One enabled output: what its type requires, then its format.\<close>

definition validate_type :: "nat \<Rightarrow> OutputConfig \<Rightarrow> config_error + OutputConfig" where
  "validate_type i x =
     (if oc_Type x = ''stdout'' then Inr x
      else if oc_Type x = ''file'' then
        (if oc_Path x = [] then Inl (OutputPathRequired i)
         else Inr (if rot_MaxSizeMB (oc_Rotation x) = 0
                   then x\<lparr>oc_Rotation := (oc_Rotation x)\<lparr>rot_MaxSizeMB := 100\<rparr>\<rparr> else x))
      else if oc_Type x = ''udp'' \<or> oc_Type x = ''tcp'' then
        (if oc_Address x = [] then Inl (OutputAddressRequired i (oc_Type x))
         else Inr (if oc_Timeout x = 0 then x\<lparr>oc_Timeout := 5 * Second\<rparr> else x))
      else Inl (OutputUnknownType i (oc_Type x)))"

definition validate_format :: "nat \<Rightarrow> OutputConfig \<Rightarrow> config_error + OutputConfig" where
  "validate_format i x0 =
     (let x = (if oc_Format x0 = [] then x0\<lparr>oc_Format := ''json''\<rparr> else x0)
      in if oc_Format x \<noteq> ''json'' \<and> oc_Format x \<noteq> ''text'' then Inl (OutputBadFormat i) else Inr x)"

definition validate_output :: "nat \<Rightarrow> OutputConfig \<Rightarrow> config_error + OutputConfig" where
  "validate_output i x =
     (if \<not> oc_Enabled x then Inr x else and_then (validate_type i x) (validate_format i))"

fun validate_outputs :: "nat \<Rightarrow> OutputConfig list \<Rightarrow> config_error + OutputConfig list" where
  "validate_outputs i [] = Inr []"
| "validate_outputs i (x # xs) =
     and_then (validate_output i x) (\<lambda>y. and_then (validate_outputs (Suc i) xs) (\<lambda>ys. Inr (y # ys)))"

definition validate_metrics :: "MetricsConfig \<Rightarrow> config_error + MetricsConfig" where
  "validate_metrics x =
     (if mt_Enabled x \<and> mt_Address x = [] then Inl MetricsAddressRequired
      else Inr (if mt_Path x = [] then x\<lparr>mt_Path := ''/metrics''\<rparr> else x))"

fun first_blank :: "nat \<Rightarrow> string list \<Rightarrow> nat option" where
  "first_blank i [] = None"
| "first_blank i (u # us) = (if TrimSpace u = [] then Some i else first_blank (Suc i) us)"

text \<open>What the enabled channels require; \<open>None\<close> when nothing is missing.\<close>

definition check_channels :: "AlertsConfig \<Rightarrow> config_error option" where
  "check_channels a =
     (if tc_Enabled (ac_Telegram a) \<and> (tc_BotToken (ac_Telegram a) = [] \<or> tc_ChatID (ac_Telegram a) = [])
      then Some TelegramIncomplete
      else if wc_Enabled (ac_Webhook a) \<and> wc_URL (ac_Webhook a) = [] then Some WebhookURLRequired
      else if pw_Enabled (ac_Pushgateway a) then
        (if pw_URLs (ac_Pushgateway a) = [] then Some PushgatewayURLsRequired
         else map_option PushgatewayURLEmpty (first_blank 0 (pw_URLs (ac_Pushgateway a))))
      else None)"

definition default_method :: "AlertsConfig \<Rightarrow> AlertsConfig" where
  "default_method a =
     (if wc_Enabled (ac_Webhook a) \<and> wc_Method (ac_Webhook a) = []
      then a\<lparr>ac_Webhook := (ac_Webhook a)\<lparr>wc_Method := ''POST''\<rparr>\<rparr> else a)"

definition validate_alerts :: "AlertsConfig \<Rightarrow> config_error + AlertsConfig" where
  "validate_alerts a =
     (if \<not> ac_Enabled a then Inr a
      else case check_channels a of
             Some e \<Rightarrow> Inl e
           | None \<Rightarrow>
               and_then (RetryConfig_validate (ac_Retry (default_method a)))
                 (\<lambda>r. Inr ((default_method a)\<lparr>ac_Retry := r\<rparr>)))"

definition validate_sentry :: "SentryConfig \<Rightarrow> config_error + unit" where
  "validate_sentry s = (if sc_Enabled s \<and> sc_DSN s = [] then Inl SentryDSNRequired else Inr ())"

definition validate_pipeline :: "PipelineConfig \<Rightarrow> PipelineConfig" where
  "validate_pipeline p =
     p\<lparr>pc_EventBuffer := (if pc_EventBuffer p \<le> 0 then 10000 else pc_EventBuffer p),
       pc_ConsumerBuffer := (if pc_ConsumerBuffer p \<le> 0 then 2000 else pc_ConsumerBuffer p)\<rparr>"

definition validate_role :: "RoleCheckConfig \<Rightarrow> RoleCheckConfig" where
  "validate_role r =
     (if rk_Enabled r then
        r\<lparr>rk_Interval := (if rk_Interval r \<le> 0 then 5 * Second else rk_Interval r),
          rk_DialTimeout := (if rk_DialTimeout r \<le> 0 then 3 * Second else rk_DialTimeout r),
          rk_ReadTimeout := (if rk_ReadTimeout r \<le> 0 then 3 * Second else rk_ReadTimeout r)\<rparr>
      else r)"

definition Validate :: "unicode \<Rightarrow> Config \<Rightarrow> config_error + Config" where
  "Validate U c =
     and_then (validate_redis (cfg_Redis c)) (\<lambda>redis.
     and_then (validate_log U (cfg_Log c)) (\<lambda>_.
     and_then (validate_outputs 0 (cfg_Outputs c)) (\<lambda>outputs.
     and_then (validate_metrics (cfg_Metrics c)) (\<lambda>metrics.
     and_then (validate_alerts (cfg_Alerts c)) (\<lambda>alerts.
     and_then (validate_sentry (cfg_Sentry c)) (\<lambda>_.
       Inr (c\<lparr>cfg_Redis := redis, cfg_Outputs := outputs, cfg_Metrics := metrics, cfg_Alerts := alerts,
              cfg_Pipeline := validate_pipeline (cfg_Pipeline c),
              cfg_RoleCheck := validate_role (cfg_RoleCheck c)\<rparr>)))))))"

section \<open>Durations\<close>

text \<open>
  \<^verbatim>\<open>time.ParseDuration\<close>: a sign, then numbers with units. Integers are accumulated below
  \<open>2 ^ 63\<close>. The contribution of a fraction is computed by the library in 64-bit floating point,
  \<^verbatim>\<open>uint64(float64(f) * (float64(unit) / scale))\<close>; it is the parameter \<open>fscale f unit k\<close>, for
  \<open>k\<close> digits after the point.
\<close>

fun leadingInt :: "int \<Rightarrow> string \<Rightarrow> (int \<times> string) option" where
  "leadingInt x [] = Some (x, [])"
| "leadingInt x (c # cs) =
     (case digit_of c of
        None \<Rightarrow> Some (x, c # cs)
      | Some d \<Rightarrow>
          if x > 2 ^ 63 div 10 then None
          else if x * 10 + d > 2 ^ 63 then None
          else leadingInt (x * 10 + d) cs)"

fun leadingFraction :: "int \<Rightarrow> nat \<Rightarrow> bool \<Rightarrow> string \<Rightarrow> int \<times> nat \<times> string" where
  "leadingFraction x k overflow [] = (x, k, [])"
| "leadingFraction x k overflow (c # cs) =
     (case digit_of c of
        None \<Rightarrow> (x, k, c # cs)
      | Some d \<Rightarrow>
          if overflow \<or> x > (2 ^ 63 - 1) div 10 \<or> x * 10 + d > 2 ^ 63 then leadingFraction x k True cs
          else leadingFraction (x * 10 + d) (Suc k) False cs)"

definition unitMap :: "string \<Rightarrow> int option" where
  "unitMap = map_of
     [(''ns'', 1), (''us'', 1000), ([CHR 0xC2, CHR 0xB5, CHR ''s''], 1000),
      ([CHR 0xCE, CHR 0xBC, CHR ''s''], 1000), (''ms'', Millisecond), (''s'', Second), (''m'', Minute),
      (''h'', 60 * Minute)]"

definition unit_byte :: "char \<Rightarrow> bool" where
  "unit_byte c \<longleftrightarrow> c \<noteq> CHR ''.'' \<and> digit_of c = None"

text \<open>One number with its unit: its value in nanoseconds and the rest of the string.\<close>

definition duration_item :: "(int \<Rightarrow> int \<Rightarrow> nat \<Rightarrow> int) \<Rightarrow> string \<Rightarrow> (int \<times> string) option" where
  "duration_item fscale s =
     (if s = [] \<or> unit_byte (hd s) then None
      else case leadingInt 0 s of
        None \<Rightarrow> None
      | Some (v, s1) \<Rightarrow>
          (let pre = (length s1 \<noteq> length s);
               (f, k, s2) = (if s1 \<noteq> [] \<and> hd s1 = CHR ''.'' then leadingFraction 0 0 False (tl s1) else (0, 0, s1));
               post = (s1 \<noteq> [] \<and> hd s1 = CHR ''.'' \<and> length s2 \<noteq> length (tl s1))
           in if \<not> pre \<and> \<not> post then None
              else
                let u = takeWhile unit_byte s2; rest = dropWhile unit_byte s2
                in if u = [] then None
                   else case unitMap u of
                          None \<Rightarrow> None
                        | Some unit \<Rightarrow>
                            if v > 2 ^ 63 div unit then None
                            else
                              let v1 = v * unit + (if 0 < f then fscale f unit k else 0)
                              in if v1 > 2 ^ 63 then None else Some (v1, rest)))"

lemma leadingInt_length: "leadingInt x s = Some (v, r) \<Longrightarrow> length r \<le> length s"
  by (induction x s rule: leadingInt.induct) (auto split: option.splits if_splits)

lemma leadingFraction_length: "leadingFraction x k ov s = (f, k', r) \<Longrightarrow> length r \<le> length s"
  by (induction x k ov s rule: leadingFraction.induct) (force split: option.splits if_splits)+

lemma duration_item_length:
  assumes "duration_item fscale s = Some (v, r)"
  shows "length r < length s"
proof -
  obtain v1 s1 where i: "leadingInt 0 s = Some (v1, s1)"
    using assms by (auto simp: duration_item_def split: option.splits if_splits)
  obtain f k s2 where fr: "(if s1 \<noteq> [] \<and> hd s1 = CHR ''.'' then leadingFraction 0 0 False (tl s1) else (0, 0, s1)) = (f, k, s2)"
    by (metis prod_cases3)
  have "length s2 \<le> length s1"
    using fr by (cases s1) (auto split: if_splits dest: leadingFraction_length)
  moreover have "takeWhile unit_byte s2 \<noteq> []" "r = dropWhile unit_byte s2"
    using assms i fr by (auto simp: duration_item_def Let_def split: option.splits if_splits prod.splits)
  then have "length r < length s2"
    using takeWhile_dropWhile_id [of unit_byte s2]
    by (metis add_less_cancel_right length_append length_greater_0_conv less_add_same_cancel2)
  ultimately show ?thesis using leadingInt_length [OF i] by simp
qed

function duration_items :: "(int \<Rightarrow> int \<Rightarrow> nat \<Rightarrow> int) \<Rightarrow> int \<Rightarrow> string \<Rightarrow> int option" where
  "duration_items fscale d s =
     (if s = [] then Some d
      else case duration_item fscale s of
             None \<Rightarrow> None
           | Some (v, rest) \<Rightarrow> if d + v > 2 ^ 63 then None else duration_items fscale (d + v) rest)"
  by pat_completeness auto
termination
  by (relation "measure (\<lambda>(_, _, s). length s)") (auto simp: duration_item_length)

declare duration_items.simps [simp del]

definition ParseDuration :: "(int \<Rightarrow> int \<Rightarrow> nat \<Rightarrow> int) \<Rightarrow> string \<Rightarrow> int option" where
  "ParseDuration fscale s0 =
     (let neg = (s0 \<noteq> [] \<and> hd s0 = CHR ''-'');
          s = (if s0 \<noteq> [] \<and> (hd s0 = CHR ''-'' \<or> hd s0 = CHR ''+'') then tl s0 else s0)
      in if s = ''0'' then Some 0
         else if s = [] then None
         else case duration_items fscale 0 s of
                None \<Rightarrow> None
              | Some d \<Rightarrow> if neg then Some (- d) else if d > 2 ^ 63 - 1 then None else Some d)"

section \<open>Environment\<close>

type_synonym environment = "string \<Rightarrow> string option"

abbreviation envPrefix :: string where
  "envPrefix \<equiv> ''REDIS_WATCHER_''"

definition ParseBool :: "string \<Rightarrow> bool option" where
  "ParseBool s =
     (if s \<in> {''1'', ''t'', ''T'', ''true'', ''TRUE'', ''True''} then Some True
      else if s \<in> {''0'', ''f'', ''F'', ''false'', ''FALSE'', ''False''} then Some False
      else None)"

definition str_var :: "environment \<Rightarrow> string \<Rightarrow> string \<Rightarrow> string" where
  "str_var env key dst = (case env (envPrefix @ key) of None \<Rightarrow> dst | Some v \<Rightarrow> v)"

definition bool_var :: "environment \<Rightarrow> string \<Rightarrow> bool \<Rightarrow> bool" where
  "bool_var env key dst =
     (case env (envPrefix @ key) of
        None \<Rightarrow> dst
      | Some v \<Rightarrow> (case ParseBool v of None \<Rightarrow> dst | Some b \<Rightarrow> b))"

definition int_var :: "environment \<Rightarrow> string \<Rightarrow> int \<Rightarrow> int" where
  "int_var env key dst =
     (case env (envPrefix @ key) of
        None \<Rightarrow> dst
      | Some v \<Rightarrow> (case Atoi v of Inl _ \<Rightarrow> dst | Inr n \<Rightarrow> n))"

definition slice_var :: "environment \<Rightarrow> string \<Rightarrow> string list \<Rightarrow> string list" where
  "slice_var env key dst =
     (case env (envPrefix @ key) of
        None \<Rightarrow> dst
      | Some v \<Rightarrow> filter (\<lambda>s. s \<noteq> []) (map TrimSpace (Split v '','')))"

definition dur_var :: "(int \<Rightarrow> int \<Rightarrow> nat \<Rightarrow> int) \<Rightarrow> environment \<Rightarrow> string \<Rightarrow> int \<Rightarrow> int" where
  "dur_var fscale env key dst =
     (case env (envPrefix @ key) of
        None \<Rightarrow> dst
      | Some v \<Rightarrow> (case ParseDuration fscale v of None \<Rightarrow> dst | Some d \<Rightarrow> d))"

definition env_redis :: "environment \<Rightarrow> RedisConfig \<Rightarrow> RedisConfig" where
  "env_redis env r =
     r\<lparr>rc_Network := str_var env ''REDIS_NETWORK'' (rc_Network r),
       rc_Address := str_var env ''REDIS_ADDRESS'' (rc_Address r),
       rc_Username := str_var env ''REDIS_USERNAME'' (rc_Username r),
       rc_Password := str_var env ''REDIS_PASSWORD'' (rc_Password r)\<rparr>"

definition env_sentry :: "environment \<Rightarrow> SentryConfig \<Rightarrow> SentryConfig" where
  "env_sentry env s =
     s\<lparr>sc_DSN := str_var env ''SENTRY_DSN'' (sc_DSN s),
       sc_Enabled := bool_var env ''SENTRY_ENABLED'' (sc_Enabled s),
       sc_Environment := str_var env ''SENTRY_ENVIRONMENT'' (sc_Environment s),
       sc_Release := str_var env ''SENTRY_RELEASE'' (sc_Release s)\<rparr>"

definition env_alerts :: "(int \<Rightarrow> int \<Rightarrow> nat \<Rightarrow> int) \<Rightarrow> environment \<Rightarrow> AlertsConfig \<Rightarrow> AlertsConfig" where
  "env_alerts fscale env a =
     a\<lparr>ac_Telegram := (ac_Telegram a)\<lparr>
         tc_Endpoint := str_var env ''ALERTS_TELEGRAM_ENDPOINT'' (tc_Endpoint (ac_Telegram a)),
         tc_BotToken := str_var env ''ALERTS_TELEGRAM_BOT_TOKEN'' (tc_BotToken (ac_Telegram a)),
         tc_ChatID := str_var env ''ALERTS_TELEGRAM_CHAT_ID'' (tc_ChatID (ac_Telegram a)),
         tc_ThreadID := int_var env ''ALERTS_TELEGRAM_THREAD_ID'' (tc_ThreadID (ac_Telegram a))\<rparr>,
       ac_Webhook := (ac_Webhook a)\<lparr>wc_URL := str_var env ''ALERTS_WEBHOOK_URL'' (wc_URL (ac_Webhook a))\<rparr>,
       ac_Pushgateway := (ac_Pushgateway a)\<lparr>
         pw_URLs := slice_var env ''ALERTS_PUSHGATEWAY_URLS'' (pw_URLs (ac_Pushgateway a)),
         pw_Username := str_var env ''ALERTS_PUSHGATEWAY_USERNAME'' (pw_Username (ac_Pushgateway a)),
         pw_Password := str_var env ''ALERTS_PUSHGATEWAY_PASSWORD'' (pw_Password (ac_Pushgateway a))\<rparr>,
       ac_Retry := (ac_Retry a)\<lparr>
         rt_MaxAttempts := int_var env ''ALERTS_RETRY_MAX_ATTEMPTS'' (rt_MaxAttempts (ac_Retry a)),
         rt_InitialBackoff := dur_var fscale env ''ALERTS_RETRY_INITIAL_BACKOFF'' (rt_InitialBackoff (ac_Retry a)),
         rt_MaxBackoff := dur_var fscale env ''ALERTS_RETRY_MAX_BACKOFF'' (rt_MaxBackoff (ac_Retry a))\<rparr>\<rparr>"

definition applyEnv :: "(int \<Rightarrow> int \<Rightarrow> nat \<Rightarrow> int) \<Rightarrow> environment \<Rightarrow> Config \<Rightarrow> Config" where
  "applyEnv fscale env c =
     c\<lparr>cfg_Redis := env_redis env (cfg_Redis c),
       cfg_Log := (cfg_Log c)\<lparr>lc_Level := str_var env ''LOG_LEVEL'' (lc_Level (cfg_Log c)),
                            lc_Format := str_var env ''LOG_FORMAT'' (lc_Format (cfg_Log c))\<rparr>,
       cfg_Metrics := (cfg_Metrics c)\<lparr>mt_Address := str_var env ''METRICS_ADDRESS'' (mt_Address (cfg_Metrics c))\<rparr>,
       cfg_Sentry := env_sentry env (cfg_Sentry c),
       cfg_Alerts := env_alerts fscale env (cfg_Alerts c)\<rparr>"

text \<open>
  \<^verbatim>\<open>Load\<close>, with the file system and the YAML decoder (which overlays a document on the
  defaults) as parameters.
\<close>

record loader =
  ld_read :: "string \<Rightarrow> string + string"
  ld_decode :: "string \<Rightarrow> Config \<Rightarrow> string + Config"
  ld_env :: environment
  ld_fscale :: "int \<Rightarrow> int \<Rightarrow> nat \<Rightarrow> int"

definition Load :: "unicode \<Rightarrow> loader \<Rightarrow> string \<Rightarrow> config_error + Config" where
  "Load U ld path =
     and_then
       (if path = [] then Inr Default
        else case ld_read ld path of
               Inl e \<Rightarrow> Inl (ReadFailed e)
             | Inr data \<Rightarrow>
                 (case ld_decode ld data Default of Inl e \<Rightarrow> Inl (DecodeFailed e) | Inr c \<Rightarrow> Inr c))
       (\<lambda>c. Validate U (applyEnv (ld_fscale ld) (ld_env ld) c))"

section \<open>What validation amounts to\<close>

text \<open>
  The reference reading: a configuration is acceptable or not, and if it is, missing values are
  filled in, each section by itself.
\<close>

definition ok_output :: "OutputConfig \<Rightarrow> bool" where
  "ok_output x \<longleftrightarrow> (oc_Enabled x \<longrightarrow>
     (oc_Type x = ''stdout'' \<or> oc_Type x = ''file'' \<and> oc_Path x \<noteq> [] \<or>
      oc_Type x \<in> {''udp'', ''tcp''} \<and> oc_Address x \<noteq> []) \<and> oc_Format x \<in> {[], ''json'', ''text''})"

definition ok_retry :: "RetryConfig \<Rightarrow> bool" where
  "ok_retry r \<longleftrightarrow> 0 \<le> rt_InitialBackoff r \<and> 0 \<le> rt_MaxBackoff r \<and>
     (rt_MaxBackoff r = 0 \<or> rt_InitialBackoff r \<le> rt_MaxBackoff r)"

definition ok_alerts :: "AlertsConfig \<Rightarrow> bool" where
  "ok_alerts a \<longleftrightarrow> (ac_Enabled a \<longrightarrow>
     (tc_Enabled (ac_Telegram a) \<longrightarrow> tc_BotToken (ac_Telegram a) \<noteq> [] \<and> tc_ChatID (ac_Telegram a) \<noteq> []) \<and>
     (wc_Enabled (ac_Webhook a) \<longrightarrow> wc_URL (ac_Webhook a) \<noteq> []) \<and>
     (pw_Enabled (ac_Pushgateway a) \<longrightarrow> pw_URLs (ac_Pushgateway a) \<noteq> [] \<and>
        (\<forall>u\<in>set (pw_URLs (ac_Pushgateway a)). TrimSpace u \<noteq> [])) \<and>
     ok_retry (ac_Retry a))"

definition acceptable :: "unicode \<Rightarrow> Config \<Rightarrow> bool" where
  "acceptable U c \<longleftrightarrow>
     rc_Network (cfg_Redis c) \<in> {''unix'', ''tcp''} \<and> rc_Address (cfg_Redis c) \<noteq> [] \<and>
     ToLower U (lc_Level (cfg_Log c)) \<in> {''debug'', ''info'', ''warn'', ''warning'', ''error''} \<and>
     ToLower U (lc_Format (cfg_Log c)) \<in> {[], ''json'', ''text''} \<and>
     list_all ok_output (cfg_Outputs c) \<and>
     (mt_Enabled (cfg_Metrics c) \<longrightarrow> mt_Address (cfg_Metrics c) \<noteq> []) \<and>
     ok_alerts (cfg_Alerts c) \<and> (sc_Enabled (cfg_Sentry c) \<longrightarrow> sc_DSN (cfg_Sentry c) \<noteq> [])"

definition fill_redis :: "RedisConfig \<Rightarrow> RedisConfig" where
  "fill_redis r =
     (let mn = (if rc_BackoffMin r \<le> 0 then Second else rc_BackoffMin r)
      in r\<lparr>rc_BackoffMin := mn, rc_BackoffMax := max mn (rc_BackoffMax r)\<rparr>)"

definition fill_output :: "OutputConfig \<Rightarrow> OutputConfig" where
  "fill_output x =
     (if \<not> oc_Enabled x then x
      else
        x\<lparr>oc_Rotation := (if oc_Type x = ''file'' \<and> rot_MaxSizeMB (oc_Rotation x) = 0
                          then (oc_Rotation x)\<lparr>rot_MaxSizeMB := 100\<rparr> else oc_Rotation x),
          oc_Timeout := (if oc_Type x \<in> {''udp'', ''tcp''} \<and> oc_Timeout x = 0 then 5 * Second else oc_Timeout x),
          oc_Format := (if oc_Format x = [] then ''json'' else oc_Format x)\<rparr>)"

definition fill_metrics :: "MetricsConfig \<Rightarrow> MetricsConfig" where
  "fill_metrics x = x\<lparr>mt_Path := (if mt_Path x = [] then ''/metrics'' else mt_Path x)\<rparr>"

definition fill_alerts :: "AlertsConfig \<Rightarrow> AlertsConfig" where
  "fill_alerts a =
     (if \<not> ac_Enabled a then a
      else
        a\<lparr>ac_Webhook := (ac_Webhook a)\<lparr>wc_Method := (if wc_Enabled (ac_Webhook a) \<and> wc_Method (ac_Webhook a) = []
                                                    then ''POST'' else wc_Method (ac_Webhook a))\<rparr>,
          ac_Retry := (ac_Retry a)\<lparr>rt_MaxAttempts := (if rt_MaxAttempts (ac_Retry a) \<le> 0 then 1
                                                      else rt_MaxAttempts (ac_Retry a))\<rparr>\<rparr>)"

definition fill :: "Config \<Rightarrow> Config" where
  "fill c =
     c\<lparr>cfg_Redis := fill_redis (cfg_Redis c), cfg_Outputs := map fill_output (cfg_Outputs c),
       cfg_Metrics := fill_metrics (cfg_Metrics c), cfg_Alerts := fill_alerts (cfg_Alerts c),
       cfg_Pipeline := validate_pipeline (cfg_Pipeline c), cfg_RoleCheck := validate_role (cfg_RoleCheck c)\<rparr>"

lemma and_then_Inr: "and_then r f = Inr y \<longleftrightarrow> (\<exists>x. r = Inr x \<and> f x = Inr y)"
  by (simp add: and_then_def split: sum.splits)

lemma validate_redis_Inr:
  "validate_redis r = Inr r' \<longleftrightarrow> rc_Network r \<in> {''unix'', ''tcp''} \<and> rc_Address r \<noteq> [] \<and> r' = fill_redis r"
  by (cases r) (auto simp: validate_redis_def fill_redis_def Let_def max_def)

lemma validate_log_Inr:
  "validate_log U l = Inr u \<longleftrightarrow>
     ToLower U (lc_Level l) \<in> {''debug'', ''info'', ''warn'', ''warning'', ''error''} \<and>
     ToLower U (lc_Format l) \<in> {[], ''json'', ''text''}"
  by (auto simp: validate_log_def)

lemma validate_format_Inr:
  "validate_format i x = Inr y \<longleftrightarrow> oc_Format x \<in> {[], ''json'', ''text''} \<and>
     y = x\<lparr>oc_Format := (if oc_Format x = [] then ''json'' else oc_Format x)\<rparr>"
  by (cases "oc_Format x = []") (auto simp: validate_format_def Let_def)

lemma validate_type_Inr:
  "validate_type i x = Inr y \<longleftrightarrow>
     (oc_Type x = ''stdout'' \<or> oc_Type x = ''file'' \<and> oc_Path x \<noteq> [] \<or>
      oc_Type x \<in> {''udp'', ''tcp''} \<and> oc_Address x \<noteq> []) \<and>
     y = x\<lparr>oc_Rotation := (if oc_Type x = ''file'' \<and> rot_MaxSizeMB (oc_Rotation x) = 0
                           then (oc_Rotation x)\<lparr>rot_MaxSizeMB := 100\<rparr> else oc_Rotation x),
           oc_Timeout := (if oc_Type x \<in> {''udp'', ''tcp''} \<and> oc_Timeout x = 0 then 5 * Second else oc_Timeout x)\<rparr>"
proof -
  consider "oc_Type x = ''stdout''" | "oc_Type x = ''file''" | "oc_Type x = ''udp'' \<or> oc_Type x = ''tcp''"
    | "oc_Type x \<notin> {''stdout'', ''file'', ''udp'', ''tcp''}" by blast
  then show ?thesis by cases (auto simp: validate_type_def)
qed

lemma validate_output_Inr: "validate_output i x = Inr y \<longleftrightarrow> ok_output x \<and> y = fill_output x"
proof (cases "oc_Enabled x")
  case False
  then show ?thesis by (auto simp: validate_output_def ok_output_def fill_output_def)
next
  case True
  then show ?thesis
    by (auto simp: validate_output_def and_then_Inr validate_type_Inr validate_format_Inr ok_output_def
        fill_output_def simp del: insert_iff)
qed

lemma validate_outputs_Inr:
  "validate_outputs i xs = Inr ys \<longleftrightarrow> list_all ok_output xs \<and> ys = map fill_output xs"
  by (induction xs arbitrary: i ys) (auto simp: and_then_Inr validate_output_Inr)

lemma validate_metrics_Inr:
  "validate_metrics x = Inr y \<longleftrightarrow> (mt_Enabled x \<longrightarrow> mt_Address x \<noteq> []) \<and> y = fill_metrics x"
  by (cases x) (auto simp: validate_metrics_def fill_metrics_def)

lemma first_blank_None: "first_blank i us = None \<longleftrightarrow> (\<forall>u\<in>set us. TrimSpace u \<noteq> [])"
  by (induction us arbitrary: i) auto

lemma RetryConfig_validate_Inr:
  "RetryConfig_validate r = Inr r' \<longleftrightarrow>
     ok_retry r \<and> r' = r\<lparr>rt_MaxAttempts := (if rt_MaxAttempts r \<le> 0 then 1 else rt_MaxAttempts r)\<rparr>"
  by (cases r) (auto simp: RetryConfig_validate_def ok_retry_def Let_def)

lemma check_channels_None:
  "check_channels a = None \<longleftrightarrow>
     (tc_Enabled (ac_Telegram a) \<longrightarrow> tc_BotToken (ac_Telegram a) \<noteq> [] \<and> tc_ChatID (ac_Telegram a) \<noteq> []) \<and>
     (wc_Enabled (ac_Webhook a) \<longrightarrow> wc_URL (ac_Webhook a) \<noteq> []) \<and>
     (pw_Enabled (ac_Pushgateway a) \<longrightarrow> pw_URLs (ac_Pushgateway a) \<noteq> [] \<and>
        (\<forall>u\<in>set (pw_URLs (ac_Pushgateway a)). TrimSpace u \<noteq> []))"
  by (auto simp: check_channels_def first_blank_None)

lemma validate_alerts_Inr: "validate_alerts a = Inr a' \<longleftrightarrow> ok_alerts a \<and> a' = fill_alerts a"
proof (cases "ac_Enabled a")
  case False
  then show ?thesis by (auto simp: validate_alerts_def ok_alerts_def fill_alerts_def)
next
  case True
  have filled: "(default_method a)\<lparr>ac_Retry := (ac_Retry a)\<lparr>rt_MaxAttempts := (if rt_MaxAttempts (ac_Retry a) \<le> 0 then 1
      else rt_MaxAttempts (ac_Retry a))\<rparr>\<rparr> = fill_alerts a"
    using True by (simp add: fill_alerts_def default_method_def)
  have retry: "ac_Retry (default_method a) = ac_Retry a" by (simp add: default_method_def)
  have ok: "ok_alerts a \<longleftrightarrow> check_channels a = None \<and> ok_retry (ac_Retry a)"
    unfolding check_channels_None ok_alerts_def using True by blast
  show ?thesis
  proof (cases "check_channels a")
    case None
    with True ok show ?thesis
      by (auto simp: validate_alerts_def retry and_then_Inr RetryConfig_validate_Inr simp flip: filled)
  next
    case (Some e)
    with True ok show ?thesis by (simp add: validate_alerts_def)
  qed
qed

lemma Validate_Inr: "Validate U c = Inr c' \<longleftrightarrow> acceptable U c \<and> c' = fill c"
  by (auto simp: Validate_def and_then_Inr validate_redis_Inr validate_log_Inr validate_outputs_Inr
      validate_metrics_Inr validate_alerts_Inr validate_sentry_def acceptable_def fill_def split: if_splits)

lemma ok_fill_output: "ok_output x \<Longrightarrow> ok_output (fill_output x) \<and> fill_output (fill_output x) = fill_output x"
  by (auto simp: ok_output_def fill_output_def)

lemma ok_fill_alerts: "ok_alerts a \<Longrightarrow> ok_alerts (fill_alerts a) \<and> fill_alerts (fill_alerts a) = fill_alerts a"
  by (simp add: ok_alerts_def fill_alerts_def ok_retry_def)

lemma fill_sections_idem [simp]:
  "fill_redis (fill_redis r) = fill_redis r" "fill_metrics (fill_metrics x) = fill_metrics x"
  "validate_pipeline (validate_pipeline p) = validate_pipeline p" "validate_role (validate_role k) = validate_role k"
  "rc_Network (fill_redis r) = rc_Network r" "rc_Address (fill_redis r) = rc_Address r"
  "mt_Enabled (fill_metrics x) = mt_Enabled x" "mt_Address (fill_metrics x) = mt_Address x"
  by (simp_all add: fill_redis_def fill_metrics_def validate_pipeline_def validate_role_def Let_def)

lemma acceptable_fill: "acceptable U c \<Longrightarrow> acceptable U (fill c) \<and> fill (fill c) = fill c"
proof -
  assume a: "acceptable U c"
  then have "list_all ok_output (map fill_output (cfg_Outputs c))"
    "map fill_output (map fill_output (cfg_Outputs c)) = map fill_output (cfg_Outputs c)"
    using ok_fill_output by (auto simp: acceptable_def list_all_iff)
  with a ok_fill_alerts [of "cfg_Alerts c"] show ?thesis by (auto simp: acceptable_def fill_def simp del: map_map)
qed

section \<open>Properties\<close>


text \<open>
  C35: A validated configuration is stable and usable: validating it again changes nothing; its
  backoff bounds are positive and ordered, its buffers positive, the intervals of an enabled role
  check positive, and every enabled output has a known type with what that type needs and one of
  the two formats.
\<close>

theorem Validate_usable:
  assumes "Validate U c = Inr c'"
  shows "Validate U c' = Inr c' \<and>
    0 < rc_BackoffMin (cfg_Redis c') \<and> rc_BackoffMin (cfg_Redis c') \<le> rc_BackoffMax (cfg_Redis c') \<and>
    0 < pc_EventBuffer (cfg_Pipeline c') \<and> 0 < pc_ConsumerBuffer (cfg_Pipeline c') \<and>
    (rk_Enabled (cfg_RoleCheck c') \<longrightarrow> 0 < rk_Interval (cfg_RoleCheck c') \<and>
       0 < rk_DialTimeout (cfg_RoleCheck c') \<and> 0 < rk_ReadTimeout (cfg_RoleCheck c')) \<and>
    (ac_Enabled (cfg_Alerts c') \<longrightarrow> 1 \<le> rt_MaxAttempts (ac_Retry (cfg_Alerts c')) \<and> ok_retry (ac_Retry (cfg_Alerts c'))) \<and>
    (\<forall>x\<in>set (cfg_Outputs c'). oc_Enabled x \<longrightarrow> ok_output x \<and> oc_Format x \<in> {''json'', ''text''})"
proof -
  have c: "acceptable U c" "c' = fill c" using assms by (simp_all add: Validate_Inr)
  have ok: "ok_output x" if "x \<in> set (cfg_Outputs c)" for x
    using c(1) that by (auto simp: acceptable_def list_all_iff)
  have outs: "oc_Enabled y \<longrightarrow> ok_output y \<and> oc_Format y \<in> {''json'', ''text''}" if y: "y \<in> set (cfg_Outputs c')" for y
  proof -
    obtain x where x: "x \<in> set (cfg_Outputs c)" "y = fill_output x" using y c(2) by (auto simp: fill_def)
    show ?thesis using ok [OF x(1)] ok_fill_output [of x] x(2) by (auto simp: fill_output_def ok_output_def)
  qed
  have "Validate U c' = Inr c'" using acceptable_fill [OF c(1)] c(2) by (simp add: Validate_Inr)
  moreover have "ac_Enabled (cfg_Alerts c') \<longrightarrow>
      1 \<le> rt_MaxAttempts (ac_Retry (cfg_Alerts c')) \<and> ok_retry (ac_Retry (cfg_Alerts c'))"
    using c by (auto simp: fill_def fill_alerts_def acceptable_def ok_alerts_def ok_retry_def)
  moreover have "0 < rc_BackoffMin (cfg_Redis c') \<and> rc_BackoffMin (cfg_Redis c') \<le> rc_BackoffMax (cfg_Redis c')"
    "0 < pc_EventBuffer (cfg_Pipeline c') \<and> 0 < pc_ConsumerBuffer (cfg_Pipeline c')"
    "rk_Enabled (cfg_RoleCheck c') \<longrightarrow> 0 < rk_Interval (cfg_RoleCheck c') \<and>
       0 < rk_DialTimeout (cfg_RoleCheck c') \<and> 0 < rk_ReadTimeout (cfg_RoleCheck c')"
    unfolding c(2) by (simp_all add: fill_def fill_redis_def validate_pipeline_def validate_role_def Let_def)
  ultimately show ?thesis using outs by blast
qed

lemma Default_acceptable: "acceptable U Default \<and> fill Default = Default"
proof -
  have "is_ascii ''info''" "is_ascii ''json''" "ToLower ascii_only ''info'' = ''info''"
    "ToLower ascii_only ''json'' = ''json''" by code_simp+
  then have "ToLower U ''info'' = ''info''" "ToLower U ''json'' = ''json''" by (simp_all add: ToLower_def)
  then show ?thesis
    by (simp add: acceptable_def Default_def ok_alerts_def fill_def fill_redis_def fill_metrics_def
        fill_alerts_def validate_pipeline_def validate_role_def)
qed

theorem Validate_usable_witness:
  "Validate ascii_only Default = Inr Default \<and> 0 < rc_BackoffMin (cfg_Redis Default)"
proof -
  have v: "Validate ascii_only Default = Inr Default" using Default_acceptable by (simp add: Validate_Inr)
  from Validate_usable [OF v] v show ?thesis by blast
qed


definition sample_loader :: loader where
  "sample_loader = \<lparr>ld_read = (\<lambda>_. Inl ''missing''), ld_decode = (\<lambda>_ c. Inr c),
     ld_env = map_of [(''REDIS_WATCHER_REDIS_ADDRESS'', ''/tmp/redis.sock'')], ld_fscale = (\<lambda>_ _ _. 0)\<rparr>"


end
