(* ===== verification/Event.thy ===== *)
theory Event
  imports GoText
begin

text \<open>
  The audit event of \<^verbatim>\<open>internal/event/event.go\<close>: the record a parsed MONITOR line
  becomes, and its two textual views, \<^verbatim>\<open>FullCommand\<close> and \<^verbatim>\<open>CommandLine\<close>.
  A \<^verbatim>\<open>time.Time\<close> is a Unix second and a nanosecond offset.
\<close>

record gotime =
  unix_sec :: int
  nanosec :: int

text \<open>\<^verbatim>\<open>time.Unix(sec, nsec)\<close> carries whole seconds out of \<open>nsec\<close>, rounding down.\<close>

definition time_Unix :: "int \<Rightarrow> int \<Rightarrow> gotime" where
  "time_Unix sec nsec =
     \<lparr>unix_sec = wrap64 (sec + nsec div 1000000000), nanosec = nsec mod 1000000000\<rparr>"

record Source =
  src_IP :: string
  src_Port :: string

record Event =
  ev_Timestamp :: gotime
  ev_DB :: int
  ev_Source :: Source
  ev_Command :: string
  ev_Subcommand :: string
  ev_Args :: "string list"

definition FullCommand :: "Event \<Rightarrow> string" where
  "FullCommand e =
     (if ev_Subcommand e = [] then ev_Command e
      else ev_Command e @ [SP] @ ev_Subcommand e)"

text \<open>The inner byte loop of \<^verbatim>\<open>CommandLine\<close>, and the argument it writes.\<close>

primrec escape_loop :: "string \<Rightarrow> string" where
  "escape_loop [] = []"
| "escape_loop (c # cs) = (if c = DQ \<or> c = BS then [BS, c] else [c]) @ escape_loop cs"

definition command_arg :: "string \<Rightarrow> string" where
  "command_arg a =
     (if ContainsAny a [SP, TAB, CR, LF, DQ] then [DQ] @ escape_loop a @ [DQ] else a)"

primrec command_args :: "string list \<Rightarrow> string" where
  "command_args [] = []"
| "command_args (a # as) = [SP] @ command_arg a @ command_args as"

definition CommandLine :: "Event \<Rightarrow> string" where
  "CommandLine e = ev_Command e @ command_args (ev_Args e)"

lemma time_Unix_nanosec: "0 \<le> nanosec (time_Unix s n) \<and> nanosec (time_Unix s n) < 1000000000"
  by (simp add: time_Unix_def)

lemma time_Unix_normal:
  "0 \<le> n \<Longrightarrow> n < 1000000000 \<Longrightarrow> int64_range s \<Longrightarrow> time_Unix s n = \<lparr>unix_sec = s, nanosec = n\<rparr>"
  by (simp add: time_Unix_def wrap64_id)

lemma command_args_append [simp]: "command_args (a @ b) = command_args a @ command_args b"
  by (induction a) simp_all

lemma escape_loop_append [simp]: "escape_loop (a @ b) = escape_loop a @ escape_loop b"
  by (induction a) simp_all

text \<open>An event with the given command and arguments, for examples.\<close>

definition sample_event :: "string \<Rightarrow> string list \<Rightarrow> Event" where
  "sample_event cmd args =
     \<lparr>ev_Timestamp = \<lparr>unix_sec = 1700000000, nanosec = 0\<rparr>, ev_DB = 0,
      ev_Source = \<lparr>src_IP = ''127.0.0.1'', src_Port = ''1234''\<rparr>, ev_Command = cmd,
      ev_Subcommand = [], ev_Args = args\<rparr>"

end
