(* ===== verification/Metrics.thy ===== *)
theory Metrics
  imports Complex_Main Event
begin

text \<open>
  The Prometheus registry of \<^verbatim>\<open>internal/metrics/metrics.go\<close>, the health probes of
  \<^verbatim>\<open>internal/metrics/server.go\<close> and the queue collector of
  \<^verbatim>\<open>internal/metrics/collectors.go\<close>. The Prometheus client library is not part of the
  repository: a registry records the operations it performs on the library's series
  (\<open>reg_ops\<close>, oldest first) beside its own state, and the value of a counter or gauge is
  read off that record. Help texts and the process collector are left out.
\<close>

section \<open>Series and their declarations\<close>

datatype metric_kind = Counter | Gauge | Histogram "rat list"

record metric_desc =
  md_name :: string
  md_kind :: metric_kind
  md_labels :: "string list"

definition desc :: "string \<Rightarrow> metric_kind \<Rightarrow> string list \<Rightarrow> metric_desc" where
  "desc name kind labels = \<lparr>md_name = ''redis_watcher_'' @ name, md_kind = kind, md_labels = labels\<rparr>"

definition registerCommandMetrics :: "metric_desc list" where
  "registerCommandMetrics =
     [desc ''commands_total'' Counter [''command'', ''db''],
      desc ''commands_by_ip_total'' Counter [''command'', ''source_ip''],
      desc ''commands_by_db_total'' Counter [''db''],
      desc ''events_processed_total'' Counter [],
      desc ''suspicious_commands_total'' Counter [''command'', ''source_ip''],
      desc ''ignored_events_total'' Counter [''command'']]"

definition registerErrorMetrics :: "metric_desc list" where
  "registerErrorMetrics =
     [desc ''parse_errors_total'' Counter [],
      desc ''monitor_reconnects_total'' Counter [],
      desc ''monitor_dropped_events_total'' Counter [],
      desc ''dropped_events_total'' Counter [''consumer''],
      desc ''output_errors_total'' Counter [''output''],
      desc ''alert_send_errors_total'' Counter [''channel''],
      desc ''alert_retry_attempts_total'' Counter [''channel''],
      desc ''alert_dropped_total'' Counter [],
      desc ''alert_rate_limited_total'' Counter [''command''],
      desc ''role_probe_successes_total'' Counter [],
      desc ''role_probe_failures_total'' Counter []]"

definition registerOutputMetrics :: "metric_desc list" where
  "registerOutputMetrics =
     [desc ''output_written_total'' Counter [''output''],
      desc ''output_write_duration_seconds''
        (Histogram [1/10000, 5/10000, 1/1000, 5/1000, 1/100, 5/100, 1/10, 5/10, 1, 5]) [''output''],
      desc ''output_failing'' Gauge [''output'']]"

definition registerAlertMetrics :: "metric_desc list" where
  "registerAlertMetrics =
     [desc ''alerts_sent_total'' Counter [''channel'', ''command''],
      desc ''alert_send_duration_seconds''
        (Histogram [5/1000, 1/100, 25/1000, 5/100, 1/10, 25/100, 5/10, 1, 25/10, 5, 10]) [''channel''],
      desc ''alert_channel_failing'' Gauge [''channel'']]"

definition registerRoleMetrics :: "metric_desc list" where
  "registerRoleMetrics =
     [desc ''redis_is_master'' Gauge [],
      desc ''redis_role_info'' Gauge [''role''],
      desc ''redis_role_transitions_total'' Counter [''from'', ''to''],
      desc ''role_probe_duration_seconds''
        (Histogram [1/1000, 25/10000, 5/1000, 1/100, 25/1000, 5/100, 1/10, 25/100, 5/10, 1, 25/10, 5]) [],
      desc ''last_role_probe_timestamp_seconds'' Gauge []]"

definition registerConnectivityMetrics :: "metric_desc list" where
  "registerConnectivityMetrics =
     [desc ''monitor_connected'' Gauge [],
      desc ''last_event_timestamp_seconds'' Gauge [],
      desc ''monitor_session_duration_seconds''
        (Histogram [1, 10, 60, 600, 3600, 21600, 86400]) []]"

definition registerBuildMetrics :: "metric_desc list" where
  "registerBuildMetrics =
     [desc ''build_info'' Gauge [''version'', ''commit''],
      desc ''start_time_seconds'' Gauge []]"

definition all_descs :: "metric_desc list" where
  "all_descs =
     registerCommandMetrics @ registerErrorMetrics @ registerOutputMetrics @ registerAlertMetrics @
     registerRoleMetrics @ registerConnectivityMetrics @ registerBuildMetrics"

section \<open>Operations on series\<close>

text \<open>
  \<open>Inc\<close>, \<open>SetTo\<close> and \<open>Observe\<close> name a series by its short name and label values;
  an observation carries the duration whose seconds are recorded; \<open>ResetAll\<close> is
  \<^verbatim>\<open>GaugeVec.Reset\<close>.
\<close>

datatype metric_op =
    Inc string "string list"
  | SetTo string "string list" int
  | ResetAll string
  | Observe string "string list" int

text \<open>
  \<^verbatim>\<open>WithLabelValues\<close> panics unless the vector has that many labels and every value is
  valid UTF-8.
\<close>

definition declared :: "string \<Rightarrow> nat \<Rightarrow> (metric_kind \<Rightarrow> bool) \<Rightarrow> bool" where
  "declared name arity kind =
     list_ex (\<lambda>d. md_name d = ''redis_watcher_'' @ name \<and> length (md_labels d) = arity \<and> kind (md_kind d))
       all_descs"

fun op_ok :: "metric_op \<Rightarrow> bool" where
  "op_ok (Inc n ls) = (declared n (length ls) (\<lambda>k. k = Counter) \<and> list_all valid_utf8 ls)"
| "op_ok (SetTo n ls v) = (declared n (length ls) (\<lambda>k. k = Gauge) \<and> list_all valid_utf8 ls)"
| "op_ok (ResetAll n) = declared n 1 (\<lambda>k. k = Gauge)"
| "op_ok (Observe n ls d) =
     (declared n (length ls) (\<lambda>k. case k of Histogram _ \<Rightarrow> True | _ \<Rightarrow> False) \<and> list_all valid_utf8 ls)"

definition counter_value :: "metric_op list \<Rightarrow> string \<Rightarrow> string list \<Rightarrow> nat" where
  "counter_value ops n ls = length (filter (\<lambda>x. x = Inc n ls) ops)"

fun gauge_step :: "string \<Rightarrow> string list \<Rightarrow> metric_op \<Rightarrow> int option \<Rightarrow> int option" where
  "gauge_step n ls (SetTo m ms v) acc = (if m = n \<and> ms = ls then Some v else acc)"
| "gauge_step n ls (ResetAll m) acc = (if m = n then None else acc)"
| "gauge_step n ls _ acc = acc"

definition gauge_value :: "metric_op list \<Rightarrow> string \<Rightarrow> string list \<Rightarrow> int option" where
  "gauge_value ops n ls = fold (gauge_step n ls) ops None"

section \<open>The registry\<close>

record Registry =
  reg_ignored :: "string set"
  reg_trackSourceIP :: bool
  reg_ops :: "metric_op list"
  reg_monitorConnected :: bool
  reg_roleKnown :: bool
  reg_failingOutputs :: "string set"
  reg_failingAlertChannels :: "string set"

definition emit :: "metric_op list \<Rightarrow> Registry \<Rightarrow> Registry" where
  "emit ops r = r\<lparr>reg_ops := reg_ops r @ ops\<rparr>"

text \<open>\<open>start\<close> is the Unix time at which the registry is built.\<close>

definition New_Registry :: "string list \<Rightarrow> bool \<Rightarrow> string \<Rightarrow> string \<Rightarrow> int \<Rightarrow> Registry" where
  "New_Registry ignoredCommands trackSourceIP version commit start =
     \<lparr>reg_ignored = set ignoredCommands, reg_trackSourceIP = trackSourceIP,
      reg_ops = [SetTo ''build_info'' [version, commit] 1, SetTo ''start_time_seconds'' [] start],
      reg_monitorConnected = False, reg_roleKnown = False,
      reg_failingOutputs = {}, reg_failingAlertChannels = {}\<rparr>"

definition Record :: "Event \<Rightarrow> Registry \<Rightarrow> Registry" where
  "Record ev r =
     emit ([Inc ''events_processed_total'' []] @
           (if ev_Command ev \<in> reg_ignored r then []
            else
              let db = Itoa (ev_DB ev) in
              [Inc ''commands_total'' [ev_Command ev, db], Inc ''commands_by_db_total'' [db]] @
              (if reg_trackSourceIP r \<and> src_IP (ev_Source ev) \<noteq> []
               then [Inc ''commands_by_ip_total'' [ev_Command ev, src_IP (ev_Source ev)]]
               else []))) r"

definition IgnoredEvent :: "string \<Rightarrow> Registry \<Rightarrow> Registry" where
  "IgnoredEvent command r = emit [Inc ''ignored_events_total'' [command]] r"

definition RecordSuspicious :: "string \<Rightarrow> string \<Rightarrow> Registry \<Rightarrow> Registry" where
  "RecordSuspicious command sourceIP r = emit [Inc ''suspicious_commands_total'' [command, sourceIP]] r"

definition SetRedisRole :: "string \<Rightarrow> Registry \<Rightarrow> Registry" where
  "SetRedisRole roleName r =
     (emit [ResetAll ''redis_role_info'', SetTo ''redis_role_info'' [roleName] 1,
            SetTo ''redis_is_master'' [] (if roleName = ''master'' then 1 else 0)] r)
     \<lparr>reg_roleKnown := (roleName \<noteq> [] \<and> roleName \<noteq> ''unknown'')\<rparr>"

definition RecordRoleTransition :: "string \<Rightarrow> string \<Rightarrow> Registry \<Rightarrow> Registry" where
  "RecordRoleTransition from to r = emit [Inc ''redis_role_transitions_total'' [from, to]] r"

definition SetMonitorConnected :: "bool \<Rightarrow> Registry \<Rightarrow> Registry" where
  "SetMonitorConnected conn r =
     (emit [SetTo ''monitor_connected'' [] (if conn then 1 else 0)] r)
     \<lparr>reg_monitorConnected := conn\<rparr>"

definition ObserveLastEvent :: "gotime \<Rightarrow> Registry \<Rightarrow> Registry" where
  "ObserveLastEvent t r = emit [SetTo ''last_event_timestamp_seconds'' [] (unix_sec t)] r"

definition ObserveMonitorSession :: "int \<Rightarrow> Registry \<Rightarrow> Registry" where
  "ObserveMonitorSession d r = emit [Observe ''monitor_session_duration_seconds'' [] d] r"

definition IncrParseError :: "Registry \<Rightarrow> Registry" where
  "IncrParseError r = emit [Inc ''parse_errors_total'' []] r"

definition IncrReconnect :: "Registry \<Rightarrow> Registry" where
  "IncrReconnect r = emit [Inc ''monitor_reconnects_total'' []] r"

definition IncrMonitorDropped :: "Registry \<Rightarrow> Registry" where
  "IncrMonitorDropped r = emit [Inc ''monitor_dropped_events_total'' []] r"

definition IncrOutputWritten :: "string \<Rightarrow> Registry \<Rightarrow> Registry" where
  "IncrOutputWritten out r = emit [Inc ''output_written_total'' [out]] r"

definition IncrOutputDropped :: "string \<Rightarrow> Registry \<Rightarrow> Registry" where
  "IncrOutputDropped out r = emit [Inc ''dropped_events_total'' [out]] r"

definition IncrOutputError :: "string \<Rightarrow> Registry \<Rightarrow> Registry" where
  "IncrOutputError out r = emit [Inc ''output_errors_total'' [out]] r"

definition SetOutputFailing :: "string \<Rightarrow> bool \<Rightarrow> Registry \<Rightarrow> Registry" where
  "SetOutputFailing out failing r =
     (emit [SetTo ''output_failing'' [out] (if failing then 1 else 0)] r)
     \<lparr>reg_failingOutputs :=
        (if failing then insert out (reg_failingOutputs r) else reg_failingOutputs r - {out})\<rparr>"

definition ObserveOutputWrite :: "string \<Rightarrow> int \<Rightarrow> Registry \<Rightarrow> Registry" where
  "ObserveOutputWrite out d r = emit [Observe ''output_write_duration_seconds'' [out] d] r"

definition AlertSent :: "string \<Rightarrow> string \<Rightarrow> Registry \<Rightarrow> Registry" where
  "AlertSent channel command r = emit [Inc ''alerts_sent_total'' [channel, command]] r"

definition AlertError :: "string \<Rightarrow> Registry \<Rightarrow> Registry" where
  "AlertError channel r = emit [Inc ''alert_send_errors_total'' [channel]] r"

definition SuspiciousObserved :: "string \<Rightarrow> string \<Rightarrow> Registry \<Rightarrow> Registry" where
  "SuspiciousObserved command sourceIP r = RecordSuspicious command sourceIP r"

definition AlertRetry :: "string \<Rightarrow> Registry \<Rightarrow> Registry" where
  "AlertRetry channel r = emit [Inc ''alert_retry_attempts_total'' [channel]] r"

definition AlertDropped :: "Registry \<Rightarrow> Registry" where
  "AlertDropped r = emit [Inc ''alert_dropped_total'' []] r"

definition AlertRateLimited :: "string \<Rightarrow> Registry \<Rightarrow> Registry" where
  "AlertRateLimited command r = emit [Inc ''alert_rate_limited_total'' [command]] r"

definition ObserveAlertSend :: "string \<Rightarrow> int \<Rightarrow> Registry \<Rightarrow> Registry" where
  "ObserveAlertSend channel d r = emit [Observe ''alert_send_duration_seconds'' [channel] d] r"

definition SetAlertChannelFailing :: "string \<Rightarrow> bool \<Rightarrow> Registry \<Rightarrow> Registry" where
  "SetAlertChannelFailing channel failing r =
     (emit [SetTo ''alert_channel_failing'' [channel] (if failing then 1 else 0)] r)
     \<lparr>reg_failingAlertChannels :=
        (if failing then insert channel (reg_failingAlertChannels r)
         else reg_failingAlertChannels r - {channel})\<rparr>"

text \<open>\<open>now\<close> is the Unix time of the call.\<close>

definition RecordRoleProbe :: "bool \<Rightarrow> int \<Rightarrow> int \<Rightarrow> Registry \<Rightarrow> Registry" where
  "RecordRoleProbe success d now r =
     emit ([Observe ''role_probe_duration_seconds'' [] d] @
           (if success
            then [Inc ''role_probe_successes_total'' [],
                  SetTo ''last_role_probe_timestamp_seconds'' [] now]
            else [Inc ''role_probe_failures_total'' []])) r"

section \<open>Readiness\<close>

record ReadinessState =
  rs_MonitorConnected :: bool
  rs_RoleKnown :: bool
  rs_FailingOutputs :: "string set"
  rs_FailingAlertChannels :: "string set"

definition Readiness :: "Registry \<Rightarrow> ReadinessState" where
  "Readiness r =
     \<lparr>rs_MonitorConnected = reg_monitorConnected r, rs_RoleKnown = reg_roleKnown r,
      rs_FailingOutputs = reg_failingOutputs r, rs_FailingAlertChannels = reg_failingAlertChannels r\<rparr>"

text \<open>The status code and the \<^verbatim>\<open>ready\<close> member of the body; the other members are the snapshot.\<close>

definition readyzHandler :: "Registry \<Rightarrow> int \<times> bool \<times> ReadinessState" where
  "readyzHandler r =
     (let state = Readiness r;
          ready = rs_MonitorConnected state \<and> rs_RoleKnown state \<and>
                  rs_FailingOutputs state = {} \<and> rs_FailingAlertChannels state = {}
      in ((if ready then 200 else 503), ready, state))"

definition healthzHandler :: "Registry \<Rightarrow> int \<times> string" where
  "healthzHandler r = (200, ''ok'')"

section \<open>The queue-depth collector\<close>

text \<open>\<open>'q\<close> is the state that a depth callback reads.\<close>

record 'q queueRef =
  qr_name :: string
  qr_depthFn :: "'q \<Rightarrow> nat"
  qr_capacity :: nat

type_synonym 'q QueueDepthCollector = "'q queueRef list"

datatype queue_desc = DepthDesc | CapDesc

definition NewQueueDepthCollector :: "'q QueueDepthCollector" where
  "NewQueueDepthCollector = []"

definition Add_queue ::
  "string \<Rightarrow> ('q \<Rightarrow> nat) \<Rightarrow> nat \<Rightarrow> 'q QueueDepthCollector \<Rightarrow> 'q QueueDepthCollector" where
  "Add_queue name depthFn capacity q =
     q @ [\<lparr>qr_name = name, qr_depthFn = depthFn, qr_capacity = capacity\<rparr>]"

definition Describe :: "'q QueueDepthCollector \<Rightarrow> queue_desc list" where
  "Describe q = [DepthDesc, CapDesc]"

definition Collect :: "'q QueueDepthCollector \<Rightarrow> 'q \<Rightarrow> (queue_desc \<times> string \<times> nat) list" where
  "Collect q st =
     concat (map (\<lambda>r. [(DepthDesc, qr_name r, qr_depthFn r st), (CapDesc, qr_name r, qr_capacity r)]) q)"

text \<open>A further collector is refused when one of the series it describes is registered already.\<close>

definition RegisterCollector :: "string list \<Rightarrow> bool" where
  "RegisterCollector names \<longleftrightarrow> list_all (\<lambda>n. n \<notin> set (map md_name all_descs)) names"

section \<open>Every method as a call\<close>

text \<open>
  The methods through which the other components reach the registry, as values: what a
  component's \<^verbatim>\<open>MetricsSink\<close> or \<^verbatim>\<open>Reporter\<close> receives.
\<close>

datatype reg_call =
    CRecord Event
  | CIgnored string
  | CSuspicious string string
  | CSetRedisRole string
  | CRoleTransition string string
  | CSetMonitorConnected bool
  | CLastEvent gotime
  | CMonitorSession int
  | CParseError
  | CReconnect
  | CMonitorDropped
  | COutputWritten string
  | COutputDropped string
  | COutputError string
  | COutputFailing string bool
  | COutputWrite string int
  | CAlertSent string string
  | CAlertError string
  | CAlertRetry string
  | CAlertDropped
  | CAlertRateLimited string
  | CAlertSend string int
  | CAlertChannelFailing string bool
  | CRoleProbe bool int int

fun reg_apply :: "reg_call \<Rightarrow> Registry \<Rightarrow> Registry" where
  "reg_apply (CRecord ev) r = Record ev r"
| "reg_apply (CIgnored c) r = IgnoredEvent c r"
| "reg_apply (CSuspicious c ip) r = SuspiciousObserved c ip r"
| "reg_apply (CSetRedisRole n) r = SetRedisRole n r"
| "reg_apply (CRoleTransition a b) r = RecordRoleTransition a b r"
| "reg_apply (CSetMonitorConnected b) r = SetMonitorConnected b r"
| "reg_apply (CLastEvent t) r = ObserveLastEvent t r"
| "reg_apply (CMonitorSession d) r = ObserveMonitorSession d r"
| "reg_apply CParseError r = IncrParseError r"
| "reg_apply CReconnect r = IncrReconnect r"
| "reg_apply CMonitorDropped r = IncrMonitorDropped r"
| "reg_apply (COutputWritten n) r = IncrOutputWritten n r"
| "reg_apply (COutputDropped n) r = IncrOutputDropped n r"
| "reg_apply (COutputError n) r = IncrOutputError n r"
| "reg_apply (COutputFailing n b) r = SetOutputFailing n b r"
| "reg_apply (COutputWrite n d) r = ObserveOutputWrite n d r"
| "reg_apply (CAlertSent ch c) r = AlertSent ch c r"
| "reg_apply (CAlertError ch) r = AlertError ch r"
| "reg_apply (CAlertRetry ch) r = AlertRetry ch r"
| "reg_apply CAlertDropped r = AlertDropped r"
| "reg_apply (CAlertRateLimited c) r = AlertRateLimited c r"
| "reg_apply (CAlertSend ch d) r = ObserveAlertSend ch d r"
| "reg_apply (CAlertChannelFailing ch b) r = SetAlertChannelFailing ch b r"
| "reg_apply (CRoleProbe s d now) r = RecordRoleProbe s d now r"

text \<open>The strings that a call passes on as label values.\<close>

fun call_strings :: "reg_call \<Rightarrow> string list" where
  "call_strings (CRecord ev) = [ev_Command ev, src_IP (ev_Source ev)]"
| "call_strings (CIgnored c) = [c]"
| "call_strings (CSuspicious c ip) = [c, ip]"
| "call_strings (CSetRedisRole n) = [n]"
| "call_strings (CRoleTransition a b) = [a, b]"
| "call_strings (COutputWritten n) = [n]"
| "call_strings (COutputDropped n) = [n]"
| "call_strings (COutputError n) = [n]"
| "call_strings (COutputFailing n b) = [n]"
| "call_strings (COutputWrite n d) = [n]"
| "call_strings (CAlertSent ch c) = [ch, c]"
| "call_strings (CAlertError ch) = [ch]"
| "call_strings (CAlertRetry ch) = [ch]"
| "call_strings (CAlertRateLimited c) = [c]"
| "call_strings (CAlertSend ch d) = [ch]"
| "call_strings (CAlertChannelFailing ch b) = [ch]"
| "call_strings _ = []"

definition reg_run :: "reg_call list \<Rightarrow> Registry \<Rightarrow> Registry" where
  "reg_run calls r = fold reg_apply calls r"

lemmas reg_methods =
  Record_def IgnoredEvent_def RecordSuspicious_def SetRedisRole_def RecordRoleTransition_def
  SetMonitorConnected_def ObserveLastEvent_def ObserveMonitorSession_def IncrParseError_def
  IncrReconnect_def IncrMonitorDropped_def IncrOutputWritten_def IncrOutputDropped_def
  IncrOutputError_def SetOutputFailing_def ObserveOutputWrite_def AlertSent_def AlertError_def
  SuspiciousObserved_def AlertRetry_def AlertDropped_def AlertRateLimited_def
  ObserveAlertSend_def SetAlertChannelFailing_def RecordRoleProbe_def emit_def

section \<open>Facts about series\<close>

lemma counter_value_append [simp]:
  "counter_value (a @ b) n ls = counter_value a n ls + counter_value b n ls"
  by (simp add: counter_value_def)

lemma counter_value_Nil [simp]: "counter_value [] n ls = 0"
  by (simp add: counter_value_def)

lemma counter_value_Cons [simp]:
  "counter_value (x # xs) n ls = (if x = Inc n ls then 1 else 0) + counter_value xs n ls"
  by (simp add: counter_value_def)

lemma gauge_value_append [simp]:
  "gauge_value (a @ b) n ls = fold (gauge_step n ls) b (gauge_value a n ls)"
  by (simp add: gauge_value_def)

lemma gauge_value_literals [simp]:
  "gauge_value [] n ls = None"
  "gauge_value (SetTo m ms v # ops) n ls =
     fold (gauge_step n ls) ops (if m = n \<and> ms = ls then Some v else None)"
  by (simp_all add: gauge_value_def)

text \<open>Every series the methods touch is declared, with the labels they pass.\<close>

lemma declared_counters [simp]:
  "declared ''commands_total'' 2 (\<lambda>k. k = Counter)"
  "declared ''commands_by_ip_total'' 2 (\<lambda>k. k = Counter)"
  "declared ''commands_by_db_total'' 1 (\<lambda>k. k = Counter)"
  "declared ''events_processed_total'' 0 (\<lambda>k. k = Counter)"
  "declared ''suspicious_commands_total'' 2 (\<lambda>k. k = Counter)"
  "declared ''ignored_events_total'' 1 (\<lambda>k. k = Counter)"
  "declared ''parse_errors_total'' 0 (\<lambda>k. k = Counter)"
  "declared ''monitor_reconnects_total'' 0 (\<lambda>k. k = Counter)"
  "declared ''monitor_dropped_events_total'' 0 (\<lambda>k. k = Counter)"
  "declared ''dropped_events_total'' 1 (\<lambda>k. k = Counter)"
  "declared ''output_errors_total'' 1 (\<lambda>k. k = Counter)"
  "declared ''alert_send_errors_total'' 1 (\<lambda>k. k = Counter)"
  "declared ''alert_retry_attempts_total'' 1 (\<lambda>k. k = Counter)"
  "declared ''alert_dropped_total'' 0 (\<lambda>k. k = Counter)"
  "declared ''alert_rate_limited_total'' 1 (\<lambda>k. k = Counter)"
  "declared ''role_probe_successes_total'' 0 (\<lambda>k. k = Counter)"
  "declared ''role_probe_failures_total'' 0 (\<lambda>k. k = Counter)"
  "declared ''output_written_total'' 1 (\<lambda>k. k = Counter)"
  "declared ''alerts_sent_total'' 2 (\<lambda>k. k = Counter)"
  "declared ''redis_role_transitions_total'' 2 (\<lambda>k. k = Counter)"
  by code_simp+

lemma declared_gauges [simp]:
  "declared ''output_failing'' 1 (\<lambda>k. k = Gauge)"
  "declared ''alert_channel_failing'' 1 (\<lambda>k. k = Gauge)"
  "declared ''redis_is_master'' 0 (\<lambda>k. k = Gauge)"
  "declared ''redis_role_info'' 1 (\<lambda>k. k = Gauge)"
  "declared ''last_role_probe_timestamp_seconds'' 0 (\<lambda>k. k = Gauge)"
  "declared ''monitor_connected'' 0 (\<lambda>k. k = Gauge)"
  "declared ''last_event_timestamp_seconds'' 0 (\<lambda>k. k = Gauge)"
  "declared ''build_info'' 2 (\<lambda>k. k = Gauge)"
  "declared ''start_time_seconds'' 0 (\<lambda>k. k = Gauge)"
  by code_simp+

lemma declared_histograms [simp]:
  "declared ''output_write_duration_seconds'' 1 (\<lambda>k. case k of Histogram _ \<Rightarrow> True | _ \<Rightarrow> False)"
  "declared ''alert_send_duration_seconds'' 1 (\<lambda>k. case k of Histogram _ \<Rightarrow> True | _ \<Rightarrow> False)"
  "declared ''role_probe_duration_seconds'' 0 (\<lambda>k. case k of Histogram _ \<Rightarrow> True | _ \<Rightarrow> False)"
  "declared ''monitor_session_duration_seconds'' 0 (\<lambda>k. case k of Histogram _ \<Rightarrow> True | _ \<Rightarrow> False)"
  by code_simp+

section \<open>The registry invariant\<close>

text \<open>
  Every operation is on a declared series with the right labels, and the health state that
  \<^verbatim>\<open>/readyz\<close> reads agrees with the gauges that a scrape reads.
\<close>

definition ops_inv :: "Registry \<Rightarrow> bool" where
  "ops_inv r \<longleftrightarrow> list_all op_ok (reg_ops r)"

definition health_inv :: "Registry \<Rightarrow> bool" where
  "health_inv r \<longleftrightarrow>
     (gauge_value (reg_ops r) ''monitor_connected'' [] = Some 1 \<longleftrightarrow> reg_monitorConnected r) \<and>
     (\<forall>out. gauge_value (reg_ops r) ''output_failing'' [out] = Some 1 \<longleftrightarrow> out \<in> reg_failingOutputs r) \<and>
     (\<forall>ch. gauge_value (reg_ops r) ''alert_channel_failing'' [ch] = Some 1 \<longleftrightarrow>
             ch \<in> reg_failingAlertChannels r)"

definition role_inv :: "Registry \<Rightarrow> bool" where
  "role_inv r \<longleftrightarrow>
     (\<forall>a b. gauge_value (reg_ops r) ''redis_role_info'' [a] \<noteq> None \<longrightarrow>
            gauge_value (reg_ops r) ''redis_role_info'' [b] \<noteq> None \<longrightarrow> a = b) \<and>
     (gauge_value (reg_ops r) ''redis_is_master'' [] = Some 1 \<longleftrightarrow>
      gauge_value (reg_ops r) ''redis_role_info'' [''master''] \<noteq> None)"

lemma ops_inv_apply: "ops_inv r \<Longrightarrow> list_all valid_utf8 (call_strings c) \<Longrightarrow> ops_inv (reg_apply c r)"
  by (cases c) (auto simp: ops_inv_def reg_methods Let_def simp flip: One_nat_def numeral_2_eq_2)

lemma health_inv_apply: "health_inv r \<Longrightarrow> health_inv (reg_apply c r)"
  by (cases c) (auto simp: health_inv_def reg_methods Let_def)

lemma role_inv_apply: "role_inv r \<Longrightarrow> role_inv (reg_apply c r)"
  by (cases c) (auto simp: role_inv_def reg_methods Let_def split: if_splits)

lemma reg_run_inv:
  assumes "\<And>c r. I r \<Longrightarrow> I (reg_apply c r)" and "I r"
  shows "I (reg_run calls r)"
  using assms(2) by (induction calls arbitrary: r) (simp_all add: reg_run_def assms(1))

lemma reg_run_append: "reg_run (a @ b) r = reg_run b (reg_run a r)"
  by (simp add: reg_run_def)

lemma reg_run_simps [simp]:
  "reg_run [] r = r" "reg_run (c # cs) r = reg_run cs (reg_apply c r)"
  by (simp_all add: reg_run_def)

section \<open>Properties of the registry\<close>

text \<open>
  Building the registry cannot panic: no two series have the same name, no series repeats
  a label, and the buckets of every histogram are strictly increasing.
\<close>

theorem all_descs_registrable:
  "distinct (map md_name all_descs) \<and> list_all (\<lambda>d. distinct (md_labels d)) all_descs \<and>
   list_all (\<lambda>d. case md_kind d of Histogram bs \<Rightarrow> sorted_wrt (<) bs | _ \<Rightarrow> True) all_descs"
  by code_simp

text \<open>
  C34: No metrics method panics as long as the strings it is given are valid UTF-8: from a fresh
  registry, any sequence of calls by the other components only touches declared series of the
  right kind with the right number of label values.
\<close>

theorem registry_never_panics:
  assumes "\<forall>c\<in>set calls. list_all valid_utf8 (call_strings c)" "valid_utf8 version" "valid_utf8 commit"
  shows "list_all op_ok (reg_ops (reg_run calls (New_Registry ignored track version commit start)))"
proof -
  have "ops_inv (New_Registry ignored track version commit start)"
    using assms(2,3) by (simp add: ops_inv_def New_Registry_def flip: One_nat_def numeral_2_eq_2)
  moreover have "ops_inv r \<Longrightarrow> ops_inv (reg_run calls r)" for r
    using assms(1) by (induction calls arbitrary: r) (simp_all add: reg_run_def ops_inv_apply)
  ultimately show ?thesis by (simp add: ops_inv_def)
qed

theorem registry_never_panics_witness:
  "list_all op_ok (reg_ops (reg_run [CRecord (sample_event ''GET'' []), CSetRedisRole ''master'']
     (New_Registry [] True ''v1'' ''abc'' 0)))"
proof -
  have "list_all valid_utf8 [''GET'', ''127.0.0.1'', ''master'', ''v1'', ''abc'']" by code_simp
  then show ?thesis by (intro registry_never_panics) (simp_all add: sample_event_def)
qed

text \<open>
  The scrape and the probe agree. After any sequence of calls, an output (a channel) is in
  the failing set that \<^verbatim>\<open>/readyz\<close> consults exactly when its gauge is 1, the MONITOR
  flag is set exactly when its gauge is 1, exactly the last reported role has a
  \<^verbatim>\<open>redis_role_info\<close> series, and \<^verbatim>\<open>redis_is_master\<close> is 1 exactly when that role
  is \<^verbatim>\<open>master\<close>.
\<close>

theorem registry_health_agrees:
  "health_inv (reg_run calls (New_Registry ignored track version commit start)) \<and>
   role_inv (reg_run calls (New_Registry ignored track version commit start))"
proof
  have "health_inv (New_Registry ignored track version commit start)"
    by (simp add: health_inv_def New_Registry_def)
  then show "health_inv (reg_run calls (New_Registry ignored track version commit start))"
    using reg_run_inv [of health_inv, OF health_inv_apply] by blast
  have "role_inv (New_Registry ignored track version commit start)"
    by (simp add: role_inv_def New_Registry_def)
  then show "role_inv (reg_run calls (New_Registry ignored track version commit start))"
    using reg_run_inv [of role_inv, OF role_inv_apply] by blast
qed

lemma Record_frame [simp]:
  "reg_ignored (Record ev r) = reg_ignored r" "reg_trackSourceIP (Record ev r) = reg_trackSourceIP r"
  by (simp_all add: Record_def emit_def)

lemma reg_ops_Record:
  "reg_ops (Record ev r) = reg_ops r @ [Inc ''events_processed_total'' []] @
     (if ev_Command ev \<in> reg_ignored r then []
      else [Inc ''commands_total'' [ev_Command ev, Itoa (ev_DB ev)],
            Inc ''commands_by_db_total'' [Itoa (ev_DB ev)]] @
           (if reg_trackSourceIP r \<and> src_IP (ev_Source ev) \<noteq> []
            then [Inc ''commands_by_ip_total'' [ev_Command ev, src_IP (ev_Source ev)]] else []))"
  by (simp add: Record_def emit_def Let_def)

text \<open>
  The throughput counters count what they are labelled with. Recording a list of events
  adds to \<^verbatim>\<open>events_processed_total\<close> the number of all of them, to
  \<^verbatim>\<open>commands_total{command,db}\<close> the number with that command and database, and to
  \<^verbatim>\<open>commands_by_ip_total{command,source_ip}\<close> the number with that command and non-empty
  source address when addresses are tracked; a command in \<^verbatim>\<open>metrics.ignored_commands\<close>
  loses its labelled series only.
\<close>

theorem Record_counts:
  "counter_value (reg_ops (fold Record evs r)) ''events_processed_total'' [] =
     counter_value (reg_ops r) ''events_processed_total'' [] + length evs \<and>
   counter_value (reg_ops (fold Record evs r)) ''commands_total'' [c, db] =
     counter_value (reg_ops r) ''commands_total'' [c, db] +
     length (filter (\<lambda>e. ev_Command e = c \<and> Itoa (ev_DB e) = db \<and> c \<notin> reg_ignored r) evs) \<and>
   counter_value (reg_ops (fold Record evs r)) ''commands_by_ip_total'' [c, ip] =
     counter_value (reg_ops r) ''commands_by_ip_total'' [c, ip] +
     length (filter (\<lambda>e. ev_Command e = c \<and> src_IP (ev_Source e) = ip \<and> ip \<noteq> [] \<and>
       reg_trackSourceIP r \<and> c \<notin> reg_ignored r) evs)"
proof (induction evs arbitrary: r)
  case Nil
  then show ?case by simp
next
  case (Cons e evs)
  from Cons.IH [of "Record e r"] show ?case
    by (auto simp: reg_ops_Record)
qed

lemma roleKnown_apply:
  "(\<And>n. c \<noteq> CSetRedisRole n) \<Longrightarrow> reg_roleKnown (reg_apply c r) = reg_roleKnown r"
  by (cases c) (auto simp: reg_methods)

lemma roleKnown_run:
  "(\<And>n. CSetRedisRole n \<notin> set calls) \<Longrightarrow> reg_roleKnown (reg_run calls r) = reg_roleKnown r"
proof (induction calls arbitrary: r)
  case Nil
  then show ?case by simp
next
  case (Cons c calls)
  then have "reg_roleKnown (reg_apply c r) = reg_roleKnown r"
    by (intro roleKnown_apply) (metis list.set_intros(1))
  with Cons show ?case by simp
qed

text \<open>
  C39: Readiness depends on a role report. As long as no component calls
  \<^verbatim>\<open>SetRedisRole\<close>, which only the role checker does, \<^verbatim>\<open>/readyz\<close> answers 503
  whatever else happens, with MONITOR connected and nothing failing: with
  \<^verbatim>\<open>role_check.enabled: false\<close> the watcher is never ready. Liveness answers 200 regardless.
\<close>

theorem readyz_never_ready_without_role:
  assumes "\<And>n. CSetRedisRole n \<notin> set calls"
  shows "fst (readyzHandler (reg_run calls (New_Registry ignored track version commit start))) = 503 \<and>
         fst (healthzHandler (reg_run calls (New_Registry ignored track version commit start))) = 200"
  using roleKnown_run [OF assms, of "New_Registry ignored track version commit start"]
  by (simp add: readyzHandler_def Readiness_def New_Registry_def healthzHandler_def)

theorem readyz_never_ready_without_role_witness:
  "fst (readyzHandler (reg_run [CSetMonitorConnected True, CLastEvent \<lparr>unix_sec = 1, nanosec = 0\<rparr>]
          (New_Registry [] True ''dev'' ''none'' 0))) = 503"
  using readyz_never_ready_without_role
    [of "[CSetMonitorConnected True, CLastEvent \<lparr>unix_sec = 1, nanosec = 0\<rparr>]" "[]" True "''dev''" "''none''" 0]
  by simp

text \<open>
  \<^verbatim>\<open>/readyz\<close> answers 200 exactly in the documented situation: the last MONITOR
  transition was a connection, the last reported role was a determinate one, and for every
  output and every alert channel the last failing-state report, if any, was a recovery. Stated
  over the gauges that a scrape shows.
\<close>

theorem readyz_iff_gauges:
  fixes ignored track version commit start calls
  defines "r \<equiv> reg_run calls (New_Registry ignored track version commit start)"
  shows "fst (readyzHandler r) = 200 \<longleftrightarrow>
    gauge_value (reg_ops r) ''monitor_connected'' [] = Some 1 \<and> reg_roleKnown r \<and>
    (\<forall>out. gauge_value (reg_ops r) ''output_failing'' [out] \<noteq> Some 1) \<and>
    (\<forall>ch. gauge_value (reg_ops r) ''alert_channel_failing'' [ch] \<noteq> Some 1)"
proof -
  have "health_inv (New_Registry ignored track version commit start)"
    by (simp add: health_inv_def New_Registry_def)
  then have "health_inv r"
    using reg_run_inv [of health_inv, OF health_inv_apply] unfolding r_def by blast
  then show ?thesis
    by (auto simp: health_inv_def readyzHandler_def Readiness_def Let_def)
qed

section \<open>Properties of the queue collector\<close>

lemma Collect_labels:
  "map (\<lambda>(d, n, v). (d, n)) (Collect q st) = concat (map (\<lambda>r. [(DepthDesc, qr_name r), (CapDesc, qr_name r)]) q)"
  by (induction q) (simp_all add: Collect_def)

lemma distinct_Collect_labels:
  "distinct (map (\<lambda>(d, n, v). (d, n)) (Collect q st)) \<longleftrightarrow> distinct (map qr_name q)"
proof (induction q)
  case Nil
  then show ?case by (simp add: Collect_def)
next
  case (Cons r q)
  have "(DepthDesc, qr_name r) \<notin> set (map (\<lambda>(d, n, v). (d, n)) (Collect q st)) \<and>
        (CapDesc, qr_name r) \<notin> set (map (\<lambda>(d, n, v). (d, n)) (Collect q st)) \<longleftrightarrow>
        qr_name r \<notin> set (map qr_name q)"
    unfolding Collect_labels by auto
  moreover have "Collect (r # q) st =
      (DepthDesc, qr_name r, qr_depthFn r st) # (CapDesc, qr_name r, qr_capacity r) # Collect q st"
    by (simp add: Collect_def)
  ultimately show ?case using Cons by (auto simp del: set_map)
qed

text \<open>
  One scrape of the queue collector yields, for every registered queue and in registration
  order, its current depth and its capacity; the samples carry distinct label sets, as a
  Prometheus gatherer requires, exactly when the queues have distinct names.
\<close>

theorem Collect_samples_distinct:
  "length (Collect q st) = 2 * length q \<and>
   (\<forall>i < length q.
      Collect q st ! (2 * i) = (DepthDesc, qr_name (q ! i), qr_depthFn (q ! i) st) \<and>
      Collect q st ! (2 * i + 1) = (CapDesc, qr_name (q ! i), qr_capacity (q ! i))) \<and>
   (distinct (map (\<lambda>(d, n, v). (d, n)) (Collect q st)) \<longleftrightarrow> distinct (map qr_name q))"
proof (intro conjI)
  show "length (Collect q st) = 2 * length q"
    by (induction q) (simp_all add: Collect_def)
  show "\<forall>i < length q.
      Collect q st ! (2 * i) = (DepthDesc, qr_name (q ! i), qr_depthFn (q ! i) st) \<and>
      Collect q st ! (2 * i + 1) = (CapDesc, qr_name (q ! i), qr_capacity (q ! i))"
  proof (induction q)
    case Nil
    then show ?case by simp
  next
    case (Cons r q)
    then show ?case by (auto simp: Collect_def nth_Cons' less_Suc_eq_0_disj)
  qed
  show "distinct (map (\<lambda>(d, n, v). (d, n)) (Collect q st)) \<longleftrightarrow> distinct (map qr_name q)"
    by (rule distinct_Collect_labels)
qed

theorem Collect_samples_distinct_witness:
  "Collect [\<lparr>qr_name = ''events'', qr_depthFn = (\<lambda>s. s), qr_capacity = 10\<rparr>] 3 ! 0 =
     (DepthDesc, ''events'', 3)"
  using Collect_samples_distinct
    [of "[\<lparr>qr_name = ''events'', qr_depthFn = (\<lambda>s. s), qr_capacity = 10\<rparr>]" 3] by simp

end
