(* ===== verification/Chan.thy ===== *)
theory Chan
  imports Prelude
begin

text \<open>
  Buffered Go channels and the queue contract that three components share. The program
  gives each consumer goroutine a buffered channel and a drop policy: with
  \<^verbatim>\<open>drop_on_full\<close> a submission that finds the buffer full is counted and discarded,
  without it the sender blocks. The locale \<open>drop_queue\<close> states that contract once; it is
  interpreted by the MONITOR client (\<^verbatim>\<open>internal/monitor\<close>), the output consumer
  (\<^verbatim>\<open>internal/output\<close>) and the alert engine (\<^verbatim>\<open>internal/alert\<close>).
\<close>

record 'a chan =
  ch_buf :: "'a list"
  ch_cap :: nat

definition make_chan :: "nat \<Rightarrow> 'a chan" where
  "make_chan n = \<lparr>ch_buf = [], ch_cap = n\<rparr>"

definition ch_room :: "'a chan \<Rightarrow> bool" where
  "ch_room c \<longleftrightarrow> length (ch_buf c) < ch_cap c"

text \<open>A send that can proceed: \<open>None\<close> when the buffer is full, so that the sender would block.\<close>

definition ch_send :: "'a chan \<Rightarrow> 'a \<Rightarrow> 'a chan option" where
  "ch_send c x = (if ch_room c then Some (c\<lparr>ch_buf := ch_buf c @ [x]\<rparr>) else None)"

definition ch_recv :: "'a chan \<Rightarrow> ('a \<times> 'a chan) option" where
  "ch_recv c = (case ch_buf c of [] \<Rightarrow> None | x # xs \<Rightarrow> Some (x, c\<lparr>ch_buf := xs\<rparr>))"

definition ch_ok :: "'a chan \<Rightarrow> bool" where
  "ch_ok c \<longleftrightarrow> length (ch_buf c) \<le> ch_cap c"

lemma ch_ok_make [simp]: "ch_ok (make_chan n)"
  by (simp add: ch_ok_def make_chan_def)

lemma ch_send_Some [go_chan]:
  "ch_send c x = Some c' \<longleftrightarrow> ch_room c \<and> c' = c\<lparr>ch_buf := ch_buf c @ [x]\<rparr>"
  by (auto simp: ch_send_def)

lemma ch_send_None [go_chan]: "ch_send c x = None \<longleftrightarrow> \<not> ch_room c"
  by (simp add: ch_send_def)

lemma ch_recv_Some [go_chan]:
  "ch_recv c = Some (x, c') \<longleftrightarrow> (\<exists>xs. ch_buf c = x # xs \<and> c' = c\<lparr>ch_buf := xs\<rparr>)"
  by (auto simp: ch_recv_def split: list.splits)

lemma ch_send_ok: "ch_ok c \<Longrightarrow> ch_send c x = Some c' \<Longrightarrow> ch_ok c' \<and> ch_cap c' = ch_cap c"
  by (auto simp: go_chan ch_ok_def ch_room_def)

lemma ch_recv_ok: "ch_ok c \<Longrightarrow> ch_recv c = Some (x, c') \<Longrightarrow> ch_ok c' \<and> ch_cap c' = ch_cap c"
  by (auto simp: go_chan ch_ok_def)

section \<open>The drop-on-full contract\<close>

text \<open>
  \<open>submit s e = None\<close> means that the caller blocks. \<open>queue\<close> is the buffer in order,
  \<open>dropped\<close> the 64-bit counter of discarded events.
\<close>

text \<open>A burst of submissions, one after the other; \<open>None\<close> when one of them blocks.\<close>

fun submit_all :: "('s \<Rightarrow> 'e \<Rightarrow> 's option) \<Rightarrow> 's \<Rightarrow> 'e list \<Rightarrow> 's option" where
  "submit_all f s [] = Some s"
| "submit_all f s (e # es) = (case f s e of None \<Rightarrow> None | Some s' \<Rightarrow> submit_all f s' es)"

locale drop_queue =
  fixes submit :: "'s \<Rightarrow> 'e \<Rightarrow> 's option"
    and queue :: "'s \<Rightarrow> 'e list"
    and capacity :: "'s \<Rightarrow> nat"
    and drop_on_full :: "'s \<Rightarrow> bool"
    and dropped :: "'s \<Rightarrow> 64 word"
  assumes submit_room: "length (queue s) < capacity s \<Longrightarrow>
      \<exists>s'. submit s e = Some s' \<and> queue s' = queue s @ [e] \<and> dropped s' = dropped s"
    and submit_full_drop: "\<not> length (queue s) < capacity s \<Longrightarrow> drop_on_full s \<Longrightarrow>
      \<exists>s'. submit s e = Some s' \<and> queue s' = queue s \<and> dropped s' = dropped s + 1"
    and submit_full_block: "\<not> length (queue s) < capacity s \<Longrightarrow> \<not> drop_on_full s \<Longrightarrow>
      submit s e = None"
    and submit_frame: "submit s e = Some s' \<Longrightarrow>
      capacity s' = capacity s \<and> drop_on_full s' = drop_on_full s"
begin

lemma submit_never_blocks: "drop_on_full s \<Longrightarrow> \<exists>s'. submit s e = Some s'"
  using submit_room submit_full_drop by blast

lemma submit_bounded:
  assumes "submit s e = Some s'" and "length (queue s) \<le> capacity s"
  shows "length (queue s') \<le> capacity s'"
proof (cases "length (queue s) < capacity s")
  case True
  with submit_room [OF True, of e] submit_frame [OF assms(1)] assms(1) show ?thesis by auto
next
  case False
  then have "drop_on_full s" using submit_full_block assms(1) by fastforce
  with submit_full_drop [OF False, of e] submit_frame [OF assms(1)] assms show ?thesis by auto
qed

text \<open>
  With the drop policy a burst of submissions always goes through: the queue keeps the
  longest prefix that fits, in order, and the counter grows by the number of the others.
\<close>

lemma submit_all_drop:
  "drop_on_full s \<Longrightarrow> length (queue s) \<le> capacity s \<Longrightarrow>
     \<exists>s'. submit_all submit s es = Some s' \<and>
       queue s' = queue s @ take (capacity s - length (queue s)) es \<and>
       dropped s' = dropped s + of_nat (length es - (capacity s - length (queue s)))"
proof (induction es arbitrary: s)
  case Nil
  then show ?case by simp
next
  case (Cons e es)
  show ?case
  proof (cases "length (queue s) < capacity s")
    case True
    then obtain s1 where s1: "submit s e = Some s1" "queue s1 = queue s @ [e]" "dropped s1 = dropped s"
      using submit_room by blast
    with submit_frame [OF s1(1)] Cons.prems True obtain s' where
      "submit_all submit s1 es = Some s'"
      "queue s' = queue s1 @ take (capacity s1 - length (queue s1)) es"
      "dropped s' = dropped s1 + of_nat (length es - (capacity s1 - length (queue s1)))"
      using Cons.IH [of s1] by auto
    with s1 submit_frame [OF s1(1)] True show ?thesis
      by (auto simp: Suc_diff_Suc take_Cons' Suc_diff_le)
  next
    case False
    then obtain s1 where s1: "submit s e = Some s1" "queue s1 = queue s" "dropped s1 = dropped s + 1"
      using submit_full_drop Cons.prems by blast
    with submit_frame [OF s1(1)] Cons.prems False obtain s' where
      "submit_all submit s1 es = Some s'"
      "queue s' = queue s1 @ take (capacity s1 - length (queue s1)) es"
      "dropped s' = dropped s1 + of_nat (length es - (capacity s1 - length (queue s1)))"
      using Cons.IH [of s1] by auto
    with s1 submit_frame [OF s1(1)] False Cons.prems show ?thesis by auto
  qed
qed

text \<open>Without it, a burst goes through exactly when it fits, and nothing is dropped.\<close>

lemma submit_all_block:
  "\<not> drop_on_full s \<Longrightarrow> length (queue s) \<le> capacity s \<Longrightarrow>
     (case submit_all submit s es of
        None \<Rightarrow> capacity s < length (queue s) + length es
      | Some s' \<Rightarrow> queue s' = queue s @ es \<and> dropped s' = dropped s)"
proof (induction es arbitrary: s)
  case Nil
  then show ?case by simp
next
  case (Cons e es)
  show ?case
  proof (cases "length (queue s) < capacity s")
    case True
    then obtain s1 where s1: "submit s e = Some s1" "queue s1 = queue s @ [e]" "dropped s1 = dropped s"
      using submit_room by blast
    have "\<not> drop_on_full s1" and "length (queue s1) \<le> capacity s1"
      using s1 submit_frame [OF s1(1)] Cons.prems True by auto
    from Cons.IH [OF this] s1 submit_frame [OF s1(1)] show ?thesis
      by (auto split: option.splits)
  next
    case False
    with Cons.prems submit_full_block show ?thesis by simp
  qed
qed

end

end
