(* ===== verification/Effect.thy ===== *)
theory Effect
  imports Metrics Chan
begin

text \<open>
  What a component does to its surroundings, as a list in the order of the calls: methods of the
  metrics registry, reports to the error tracker (\<^verbatim>\<open>sentryx.Report\<close> with its tags), and
  calls of sinks, connections and alert channels. A component's operation returns its new state
  and this list; \<open>metric_calls\<close> is the part that the registry of
  \<^verbatim>\<open>internal/metrics\<close> sees.
\<close>

type_synonym tags = "(string \<times> string) list"

datatype effect =
    Metric reg_call
  | Report tags
  | SinkWrite string Event
  | SinkClose string
  | NetDial string string int int
  | NetWrite string
  | NetClose
  | FileWrite string string
  | FileClose string
  | StdoutWrite string
  | ChannelSend string Event
  | ChannelClose string
  | Sleep int

fun metric_calls :: "effect list \<Rightarrow> reg_call list" where
  "metric_calls [] = []"
| "metric_calls (Metric m # es) = m # metric_calls es"
| "metric_calls (e # es) = metric_calls es"

fun reports :: "effect list \<Rightarrow> tags list" where
  "reports [] = []"
| "reports (Report t # es) = t # reports es"
| "reports (e # es) = reports es"

fun attempts :: "effect list \<Rightarrow> Event list" where
  "attempts [] = []"
| "attempts (SinkWrite n ev # es) = ev # attempts es"
| "attempts (e # es) = attempts es"

fun sends :: "effect list \<Rightarrow> (string \<times> Event) list" where
  "sends [] = []"
| "sends (ChannelSend n ev # es) = (n, ev) # sends es"
| "sends (e # es) = sends es"

text \<open>The calls reach the registry only when one was installed.\<close>

definition to_sink :: "bool \<Rightarrow> reg_call list \<Rightarrow> effect list" where
  "to_sink installed calls = (if installed then map Metric calls else [])"

lemma metric_calls_append [simp]: "metric_calls (a @ b) = metric_calls a @ metric_calls b"
  by (induction a rule: metric_calls.induct) simp_all

lemma reports_append [simp]: "reports (a @ b) = reports a @ reports b"
  by (induction a rule: reports.induct) simp_all

lemma attempts_append [simp]: "attempts (a @ b) = attempts a @ attempts b"
  by (induction a rule: attempts.induct) simp_all

lemma sends_append [simp]: "sends (a @ b) = sends a @ sends b"
  by (induction a rule: sends.induct) simp_all

lemma to_sink_metrics [simp]: "metric_calls (to_sink m cs) = (if m then cs else [])"
  by (induction cs) (simp_all add: to_sink_def split: if_splits)

lemma to_sink_reports [simp]: "reports (to_sink m cs) = []"
  by (induction cs) (simp_all add: to_sink_def split: if_splits)

lemma to_sink_attempts [simp]: "attempts (to_sink m cs) = []"
  by (induction cs) (simp_all add: to_sink_def split: if_splits)

lemma to_sink_sends [simp]: "sends (to_sink m cs) = []"
  by (induction cs) (simp_all add: to_sink_def split: if_splits)

text \<open>Connection attempts, and the pauses a component makes.\<close>

fun dials :: "effect list \<Rightarrow> effect list" where
  "dials [] = []"
| "dials (NetDial n a t k # es) = NetDial n a t k # dials es"
| "dials (e # es) = dials es"

fun sleeps :: "effect list \<Rightarrow> int list" where
  "sleeps [] = []"
| "sleeps (Sleep d # es) = d # sleeps es"
| "sleeps (e # es) = sleeps es"

lemma dials_append [simp]: "dials (a @ b) = dials a @ dials b"
  by (induction a rule: dials.induct) simp_all

lemma sleeps_append [simp]: "sleeps (a @ b) = sleeps a @ sleeps b"
  by (induction a rule: sleeps.induct) simp_all

lemma dials_to_sink [simp]: "dials (to_sink m cs) = []"
  by (induction cs) (simp_all add: to_sink_def split: if_splits)

lemma sleeps_to_sink [simp]: "sleeps (to_sink m cs) = []"
  by (induction cs) (simp_all add: to_sink_def split: if_splits)

end
