(* ===== verification/Support.thy ===== *)
theory Support
  imports Config Effect
begin

text \<open>
  The two support packages: \<^verbatim>\<open>internal/logging/logging.go\<close> builds the logger from the
  configuration, \<^verbatim>\<open>internal/sentryx/sentryx.go\<close> wraps the error tracker. The slog handlers
  and the Sentry SDK themselves are not modelled: a logger is the choice of level, handler and
  destination, a captured error its key/value details.
\<close>

section \<open>Logging\<close>

datatype slog_level = LevelDebug | LevelInfo | LevelWarn | LevelError
datatype slog_handler = TextHandler | JSONHandler

text \<open>The rotating file of the logger, with lumberjack's settings; \<open>None\<close> is standard error.\<close>

record log_file =
  lf_Filename :: string
  lf_MaxSize :: int
  lf_MaxBackups :: int
  lf_MaxAge :: int
  lf_Compress :: bool

record logger =
  lg_level :: slog_level
  lg_handler :: slog_handler
  lg_file :: "log_file option"

datatype log_error = UnknownLogLevel string | UnknownLogFormat string

definition parseLevel :: "unicode \<Rightarrow> string \<Rightarrow> log_error + slog_level" where
  "parseLevel U s =
     (let l = ToLower U s in
      if l = [] \<or> l = ''info'' then Inr LevelInfo
      else if l = ''debug'' then Inr LevelDebug
      else if l = ''warn'' \<or> l = ''warning'' then Inr LevelWarn
      else if l = ''error'' then Inr LevelError
      else Inl (UnknownLogLevel s))"

definition Build :: "unicode \<Rightarrow> LogConfig \<Rightarrow> log_error + logger" where
  "Build U cfg =
     (case parseLevel U (lc_Level cfg) of
        Inl e \<Rightarrow> Inl e
      | Inr level \<Rightarrow>
          (let f = ToLower U (lc_Format cfg);
               out = (if lc_File cfg \<noteq> []
                      then Some \<lparr>lf_Filename = lc_File cfg, lf_MaxSize = 50, lf_MaxBackups = 5, lf_MaxAge = 14,
                                 lf_Compress = True\<rparr>
                      else None) in
           if f = ''text'' then Inr \<lparr>lg_level = level, lg_handler = TextHandler, lg_file = out\<rparr>
           else if f = [] \<or> f = ''json'' then Inr \<lparr>lg_level = level, lg_handler = JSONHandler, lg_file = out\<rparr>
           else Inl (UnknownLogFormat (lc_Format cfg))))"

section \<open>Error tracking\<close>

record ClientOptions =
  co_Dsn :: string
  co_Environment :: string
  co_Release :: string
  co_SampleRate :: rat
  co_TracesSampleRate :: rat
  co_EnableTracing :: bool
  co_AttachStacktrace :: bool
  co_ServerName :: string

datatype sentry_error = DSNRequired | InitFailed string

text \<open>
  \<^verbatim>\<open>Init\<close>: \<open>None\<close> when tracking is disabled. What \<^verbatim>\<open>sentry.Init\<close> answers is the
  parameter \<open>sdk\<close>.
\<close>

definition Init ::
  "(ClientOptions \<Rightarrow> string option) \<Rightarrow> SentryConfig \<Rightarrow> string \<Rightarrow> sentry_error + ClientOptions option" where
  "Init sdk cfg version =
     (if \<not> sc_Enabled cfg then Inr None
      else if sc_DSN cfg = [] then Inl DSNRequired
      else
        let opts = \<lparr>co_Dsn = sc_DSN cfg, co_Environment = sc_Environment cfg,
              co_Release = (if sc_Release cfg = [] \<and> version \<noteq> [] then ''redis-watcher@'' @ version else sc_Release cfg),
              co_SampleRate = sc_SampleRate cfg, co_TracesSampleRate = sc_TracesSampleRate cfg,
              co_EnableTracing = (0 < sc_TracesSampleRate cfg), co_AttachStacktrace = sc_AttachStacktrace cfg,
              co_ServerName = ''redis-watcher''\<rparr>
        in case sdk opts of Some e \<Rightarrow> Inl (InitFailed e) | None \<Rightarrow> Inr (Some opts))"

text \<open>Whether a client with a DSN is configured.\<close>

definition Enabled :: "ClientOptions option \<Rightarrow> bool" where
  "Enabled client = (case client of None \<Rightarrow> False | Some opts \<Rightarrow> co_Dsn opts \<noteq> [])"

text \<open>A key or value passed to \<^verbatim>\<open>Capture\<close>: a string or something else.\<close>

datatype kv_value = KString string | KOther int

fun kv_details :: "kv_value list \<Rightarrow> (string \<times> kv_value) list" where
  "kv_details (KString k # v # kv) = (k, v) # kv_details kv"
| "kv_details (KOther k # v # kv) = kv_details kv"
| "kv_details kv = []"

text \<open>
  \<^verbatim>\<open>Capture\<close> on the client that \<open>Init\<close> configured: nothing without an error or a client,
  otherwise the details, where a later pair with the same key replaces an earlier one.
\<close>

definition Capture :: "ClientOptions option \<Rightarrow> string option \<Rightarrow> kv_value list \<Rightarrow> (string \<rightharpoonup> kv_value) option" where
  "Capture client err kv =
     (case err of
        None \<Rightarrow> None
      | Some e \<Rightarrow>
          (case client of
             None \<Rightarrow> None
           | Some opts \<Rightarrow> if co_Dsn opts = [] then None else Some (map_of (rev (kv_details kv)))))"

definition tags_kv :: "tags \<Rightarrow> kv_value list" where
  "tags_kv t = concat (map (\<lambda>(k, v). [KString k, KString v]) t)"

section \<open>Facts\<close>

text \<open>A validated log section always builds, with the level and format it names.\<close>

lemma Build_validated:
  assumes "validate_log U l = Inr ()"
  shows "\<exists>lg. Build U l = Inr lg"
  using assms by (auto simp: validate_log_Inr Build_def parseLevel_def Let_def)

lemma Init_validated:
  assumes "validate_sentry s = Inr ()"
  shows "Init sdk s v \<noteq> Inl DSNRequired"
  using assms by (auto simp: validate_sentry_def Init_def Let_def split: if_splits option.splits)

lemma kv_details_tags: "kv_details (tags_kv t) = map (\<lambda>(k, v). (k, KString v)) t"
  by (induction t) (auto simp: tags_kv_def)

text \<open>
  A report reaches the tracker with all its tags exactly when tracking is configured: with the
  client that \<^verbatim>\<open>Init\<close> built, a captured error carries for each tag the last value given, and
  with tracking disabled every report is a no-op.
\<close>

theorem Report_details:
  assumes "Init sdk cfg version = Inr client"
  shows "Capture client (Some e) (tags_kv t) =
     (if sc_Enabled cfg then Some (\<lambda>k. map_option KString (map_of (rev t) k)) else None)"
proof -
  have "client = None \<longleftrightarrow> \<not> sc_Enabled cfg" "client = Some opts \<Longrightarrow> co_Dsn opts \<noteq> []" for opts
    using assms by (auto simp: Init_def Let_def split: if_splits option.splits)
  moreover have "map_of (rev (map (\<lambda>(k, v). (k, KString v)) t)) = (\<lambda>k. map_option KString (map_of (rev t) k))"
    by (simp add: rev_map map_of_map fun_eq_iff)
  ultimately show ?thesis by (auto simp: Capture_def kv_details_tags split: option.splits)
qed

theorem Report_details_witness:
  "\<exists>client. Init (\<lambda>_. None) (cfg_Sentry Default\<lparr>sc_Enabled := True, sc_DSN := ''http://k@h/1''\<rparr>) ''v1'' = Inr client \<and>
     Capture client (Some ''EOF'') (tags_kv [(''stage'', ''role.probe'')]) \<noteq> None"
proof -
  let ?cfg = "cfg_Sentry Default\<lparr>sc_Enabled := True, sc_DSN := ''http://k@h/1''\<rparr>"
  obtain client where c: "Init (\<lambda>_. None) ?cfg ''v1'' = Inr client" by (simp add: Init_def Let_def)
  from Report_details [OF c, of "''EOF''" "[(''stage'', ''role.probe'')]"] c show ?thesis by auto
qed

end
