(* ===== verification/GoTime.thy ===== *)
theory GoTime
  imports Event
begin

text \<open>
  Formatting of UTC times with the layouts \<^verbatim>\<open>time.RFC3339\<close> and
  \<^verbatim>\<open>time.RFC3339Nano\<close>. The calendar is the proleptic Gregorian one; a date is computed
  by splitting the day count into cycles of 400, 100, 4 and 1 years, as the \<^verbatim>\<open>time\<close>
  package does, and shown to be the inverse of counting days. Seconds are not wrapped here:
  the \<^verbatim>\<open>time\<close> package represents every second the parser can produce up to the year
  292277022399 without wrapping.
\<close>

section \<open>Dates\<close>

definition is_leap :: "int \<Rightarrow> bool" where
  "is_leap y \<longleftrightarrow> y mod 4 = 0 \<and> (y mod 100 \<noteq> 0 \<or> y mod 400 = 0)"

definition year_len :: "int \<Rightarrow> int" where
  "year_len y = (if is_leap y then 366 else 365)"

definition month_lens :: "int \<Rightarrow> int list" where
  "month_lens y = [31, (if is_leap y then 29 else 28), 31, 30, 31, 30, 31, 31, 30, 31, 30, 31]"

text \<open>Days from 1 January of year 1 to 1 January of year \<open>y\<close>.\<close>

definition days_before_year :: "int \<Rightarrow> int" where
  "days_before_year y = 365 * (y - 1) + (y - 1) div 4 - (y - 1) div 100 + (y - 1) div 400"

text \<open>The year and the day of the year of a day count.\<close>

definition year_yday :: "int \<Rightarrow> int \<times> int" where
  "year_yday D =
     (let n400 = D div 146097; d400 = D mod 146097;
          n100 = min 3 (d400 div 36524); d100 = d400 - 36524 * n100;
          n4 = d100 div 1461; d4 = d100 mod 1461;
          n1 = min 3 (d4 div 365)
      in (400 * n400 + 100 * n100 + 4 * n4 + n1 + 1, d4 - 365 * n1))"

fun find_month :: "int list \<Rightarrow> int \<Rightarrow> int \<Rightarrow> int \<times> int" where
  "find_month [] m d = (m, d + 1)"
| "find_month (l # ls) m d = (if d < l then (m, d + 1) else find_month ls (m + 1) (d - l))"

definition civil :: "int \<Rightarrow> int \<times> int \<times> int" where
  "civil D = (let (y, yday) = year_yday D; (m, d) = find_month (month_lens y) 1 yday in (y, m, d))"

section \<open>Layouts\<close>

definition fmt_year :: "int \<Rightarrow> string" where
  "fmt_year y =
     (let n = \<bar>y\<bar>; digits = (if n < 10000 then pad_int 4 n else show_pos n)
      in if y < 0 then CHR ''-'' # digits else digits)"

definition format_seconds :: "gotime \<Rightarrow> string" where
  "format_seconds t =
     (let (y, m, d) = civil (unix_sec t div 86400 + 719162);
          s = unix_sec t mod 86400
      in fmt_year y @ [CHR ''-''] @ pad_int 2 m @ [CHR ''-''] @ pad_int 2 d @ [CHR ''T''] @
         pad_int 2 (s div 3600) @ [CHR '':''] @ pad_int 2 (s div 60 mod 60) @ [CHR '':''] @
         pad_int 2 (s mod 60))"

definition format_nanos :: "gotime \<Rightarrow> string" where
  "format_nanos t =
     (if nanosec t = 0 then [] else CHR ''.'' # TrimRight (pad_int 9 (nanosec t)) ''0'')"

definition RFC3339 :: "gotime \<Rightarrow> string" where
  "RFC3339 t = format_seconds t @ ''Z''"

definition RFC3339Nano :: "gotime \<Rightarrow> string" where
  "RFC3339Nano t = format_seconds t @ format_nanos t @ ''Z''"

section \<open>Facts about dates\<close>

lemma days_before_year_cycles:
  assumes "0 \<le> b" "b \<le> 3" "0 \<le> c" "c \<le> 24" "0 \<le> e" "e \<le> 3"
  shows "days_before_year (400 * a + 100 * b + 4 * c + e + 1) =
           146097 * a + 36524 * b + 1461 * c + 365 * e"
proof -
  let ?n = "400 * a + 100 * b + 4 * c + e"
  have "?n div 4 = 100 * a + 25 * b + c" and "?n div 100 = 4 * a + b" and "?n div 400 = a"
    using assms by linarith+
  then show ?thesis by (simp add: days_before_year_def)
qed

lemma mod_zero_iff_full: "0 < r \<Longrightarrow> r \<le> m \<Longrightarrow> (m * q + r) mod m = 0 \<longleftrightarrow> r = (m :: int)"
  by (cases "r = m") simp_all

lemma is_leap_cycles:
  assumes "0 \<le> b" "b \<le> 3" "0 \<le> c" "c \<le> 24" "0 \<le> e" "e \<le> 3"
  shows "is_leap (400 * a + 100 * b + 4 * c + e + 1) \<longleftrightarrow> e = 3 \<and> (c < 24 \<or> b = 3)"
proof -
  let ?y = "400 * a + 100 * b + 4 * c + e + 1"
  have y: "?y = 4 * (100 * a + 25 * b + c) + (e + 1)" "?y = 100 * (4 * a + b) + (4 * c + e + 1)"
    "?y = 400 * a + (100 * b + 4 * c + e + 1)" by simp_all
  have "?y mod 4 = 0 \<longleftrightarrow> e + 1 = 4"
    unfolding y(1) by (rule mod_zero_iff_full) (use assms in linarith)+
  moreover have "?y mod 100 = 0 \<longleftrightarrow> 4 * c + e + 1 = 100"
    unfolding y(2) by (rule mod_zero_iff_full) (use assms in linarith)+
  moreover have "?y mod 400 = 0 \<longleftrightarrow> 100 * b + 4 * c + e + 1 = 400"
    unfolding y(3) by (rule mod_zero_iff_full) (use assms in linarith)+
  moreover have "e + 1 = 4 \<longleftrightarrow> e = 3" "4 * c + e + 1 = 100 \<longleftrightarrow> c = 24 \<and> e = 3"
    "100 * b + 4 * c + e + 1 = 400 \<longleftrightarrow> b = 3 \<and> c = 24 \<and> e = 3"
    using assms by linarith+
  ultimately show ?thesis using assms unfolding is_leap_def by auto
qed

lemma cycle_split:
  assumes "0 \<le> d" "d \<le> 4 * m" "0 < (m :: int)"
  shows "0 \<le> min 3 (d div m) \<and> min 3 (d div m) \<le> 3 \<and> 0 \<le> d - m * min 3 (d div m) \<and>
         (d - m * min 3 (d div m) < m \<or> min 3 (d div m) = 3 \<and> d - m * min 3 (d div m) \<le> m)"
proof (cases "d div m \<le> 3")
  case True
  have "d - m * (d div m) = d mod m" by (simp add: minus_mult_div_eq_mod)
  with True assms show ?thesis by (simp add: min_def pos_imp_zdiv_nonneg_iff)
next
  case False
  then have "4 \<le> d div m" by simp
  then have "m * 4 \<le> m * (d div m)" using assms(3) by simp
  also have "\<dots> \<le> d"
    using mult_div_mod_eq [of m d] pos_mod_sign [OF assms(3), of d] by linarith
  finally have "d = 4 * m" using assms(2) by simp
  with False show ?thesis using assms(3) by (simp add: min_def)
qed

lemma year_yday_correct:
  assumes "year_yday D = (y, k)"
  shows "days_before_year y + k = D \<and> 0 \<le> k \<and> k < year_len y"
proof -
  define a d b f c g e where defs: "a = D div 146097" "d = D mod 146097" "b = min 3 (d div 36524)"
    "f = d - 36524 * b" "c = f div 1461" "g = f mod 1461" "e = min 3 (g div 365)"
  have "year_yday D = (400 * a + 100 * b + 4 * c + e + 1, g - 365 * e)"
    unfolding year_yday_def Let_def defs by (rule refl)
  with assms have y: "y = 400 * a + 100 * b + 4 * c + e + 1" and k: "k = g - 365 * e"
    by simp_all
  have D: "D = 146097 * a + d" "0 \<le> d" "d < 146097" unfolding defs(1,2) by simp_all
  have b: "0 \<le> b" "b \<le> 3" "0 \<le> f" "f < 36524 \<or> b = 3 \<and> f \<le> 36524"
    using cycle_split [of d 36524] D unfolding defs(3,4) by linarith+
  have c: "f = 1461 * c + g" "0 \<le> g" "g < 1461" unfolding defs(5,6) by simp_all
  have c': "0 \<le> c" "c \<le> 24" using b c by linarith+
  have e: "0 \<le> e" "e \<le> 3" "0 \<le> k" "k < 365 \<or> e = 3 \<and> k \<le> 365"
    using cycle_split [of g 365] c unfolding defs(7) k by linarith+
  have "days_before_year y + k = D"
    using days_before_year_cycles [of b c e a] b c' e D(1) c(1) defs(4) unfolding y k by linarith
  moreover have "k < year_len y"
  proof (cases "is_leap y")
    case True
    then show ?thesis using e by (auto simp: year_len_def)
  next
    case False
    then have "e = 3 \<longrightarrow> c = 24 \<and> b < 3"
      using is_leap_cycles [of b c e a] b c' e unfolding y by linarith
    with False e b c k show ?thesis by (auto simp: year_len_def)
  qed
  ultimately show ?thesis using e by simp
qed

lemma find_month_bounds:
  "0 \<le> d \<Longrightarrow> d < sum_list ls \<Longrightarrow>
     \<exists>i < length ls. find_month ls m d = (m + int i, d - sum_list (take i ls) + 1) \<and>
       sum_list (take i ls) \<le> d \<and> d < sum_list (take i ls) + ls ! i"
proof (induction ls arbitrary: m d)
  case Nil
  then show ?case by simp
next
  case (Cons l ls)
  show ?case
  proof (cases "d < l")
    case True
    with Cons.prems show ?thesis by (intro exI [of _ 0]) simp
  next
    case False
    then have "0 \<le> d - l" and "d - l < sum_list ls" using Cons.prems by simp_all
    from Cons.IH [OF this, of "m + 1"] obtain i where "i < length ls"
      "find_month ls (m + 1) (d - l) = (m + 1 + int i, d - l - sum_list (take i ls) + 1)"
      "sum_list (take i ls) \<le> d - l" "d - l < sum_list (take i ls) + ls ! i" by blast
    with False show ?thesis by (intro exI [of _ "Suc i"]) auto
  qed
qed

lemma sum_month_lens: "sum_list (month_lens y) = year_len y"
  by (simp add: month_lens_def year_len_def)

text \<open>
  The date of a day count is a valid calendar date, and counting the days up to it gives the
  day count back.
\<close>

lemma civil_correct:
  assumes "civil D = (y, m, d)"
  shows "1 \<le> m \<and> m \<le> 12 \<and> 1 \<le> d \<and> d \<le> month_lens y ! nat (m - 1) \<and>
         days_before_year y + sum_list (take (nat (m - 1)) (month_lens y)) + (d - 1) = D"
proof -
  obtain k where k: "year_yday D = (y, k)" and md: "find_month (month_lens y) 1 k = (m, d)"
    using assms by (auto simp: civil_def split: prod.splits)
  from year_yday_correct [OF k] have "0 \<le> k" "k < sum_list (month_lens y)" "days_before_year y + k = D"
    by (simp_all add: sum_month_lens)
  with find_month_bounds [of k "month_lens y" 1] md obtain i where
    "i < 12" "m = 1 + int i" "d = k - sum_list (take i (month_lens y)) + 1"
    "sum_list (take i (month_lens y)) \<le> k" "k < sum_list (take i (month_lens y)) + month_lens y ! i"
    by (auto simp: month_lens_def)
  with \<open>days_before_year y + k = D\<close> show ?thesis by auto
qed

section \<open>Facts about the layouts\<close>

lemma digits_free: "digit_of c = None \<Longrightarrow> c \<notin> set (pad_int w n)"
  by (rule all_digits_notin) simp_all

lemma set_fmt_year: "digit_of c = None \<Longrightarrow> c \<noteq> CHR ''-'' \<Longrightarrow> c \<notin> set (fmt_year y)"
  using all_digits_notin [OF all_digits_show_pos, of "\<bar>y\<bar>" c]
  by (auto simp: fmt_year_def Let_def digits_free)

lemma set_TrimRight: "set (TrimRight s cs) \<subseteq> set s"
  using set_dropWhileD [of _ "\<lambda>c. c \<in> set cs" "rev s"] by (auto simp: TrimRight_def)

text \<open>A formatted time consists of digits and the separators of the layout.\<close>

lemma RFC3339Nano_bytes:
  assumes "digit_of c = None" "c \<notin> {CHR ''-'', CHR ''T'', CHR '':'', CHR ''.'', CHR ''Z''}"
  shows "c \<notin> set (RFC3339Nano t)"
  using assms set_TrimRight [of "pad_int 9 (nanosec t)" "''0''"]
  by (auto simp: RFC3339Nano_def format_seconds_def format_nanos_def Let_def digits_free set_fmt_year
      split: prod.splits)

end
