(* ===== verification/Parser.thy ===== *)
theory Parser
  imports Event
begin

text \<open>
  The MONITOR line parser of \<^verbatim>\<open>internal/monitor/parser.go\<close>. The index loops of the
  source run over the suffix that the index would select; where the source reports an
  index (an unexpected character), the model carries it along. Each \<^verbatim>\<open>error\<close> return is
  a constructor of \<open>parse_error\<close>.
\<close>

datatype parse_error =
    EmptyLine
  | NoSpaceAfterTimestamp string
  | InvalidTimestamp string num_error
  | NegativeTimestamp string
  | InvalidFraction string num_error
  | MissingOpenBracket string
  | MissingCloseBracket
  | MissingSpaceInBracket string
  | InvalidDB string num_error
  | UnexpectedChar char nat
  | UnterminatedQuote
  | NoCommand

definition commandsWithSubcommand :: "string list" where
  "commandsWithSubcommand =
     [''CLIENT'', ''CONFIG'', ''ACL'', ''SCRIPT'', ''DEBUG'', ''CLUSTER'', ''COMMAND'',
      ''FUNCTION'', ''LATENCY'', ''MEMORY'', ''MODULE'', ''OBJECT'', ''PUBSUB'', ''SLOWLOG'',
      ''XGROUP'', ''XINFO'']"

section \<open>Timestamps\<close>

text \<open>The padding loop \<^verbatim>\<open>for i := len(fracStr); i < 9; i++ { f *= 10 }\<close>.\<close>

primrec pad_nanos :: "nat \<Rightarrow> int \<Rightarrow> int" where
  "pad_nanos 0 f = f"
| "pad_nanos (Suc k) f = pad_nanos k (wrap64 (f * 10))"

definition parseTimestamp :: "string \<Rightarrow> parse_error + gotime" where
  "parseTimestamp s =
     (let (secStr, fracStr) =
            (case IndexByte s CHR ''.'' of
               None \<Rightarrow> (s, [])
             | Some dot \<Rightarrow> (take dot s, drop (Suc dot) s))
      in (case ParseInt10 secStr of
            Inl e \<Rightarrow> Inl (InvalidTimestamp s e)
          | Inr sec \<Rightarrow>
              if sec < 0 then Inl (NegativeTimestamp s)
              else if fracStr = [] then Inr (time_Unix sec 0)
              else
                let frac = (if 9 < length fracStr then take 9 fracStr else fracStr) in
                (case ParseInt10 frac of
                   Inl e \<Rightarrow> Inl (InvalidFraction frac e)
                 | Inr f \<Rightarrow> Inr (time_Unix sec (pad_nanos (9 - length frac) f)))))"

section \<open>The bracketed segment\<close>

definition blank :: "char \<Rightarrow> bool" where
  "blank c \<longleftrightarrow> c = SP \<or> c = TAB"

text \<open>The search for the closing bracket; the first argument is the index of the suffix.\<close>

fun find_close :: "nat \<Rightarrow> string \<Rightarrow> nat option" where
  "find_close i [] = None"
| "find_close i (c # cs) =
     (if c \<noteq> CHR '']'' then find_close (Suc i) cs
      else
        let ahead = dropWhile blank cs in
        if ahead = [] \<or> hd ahead = DQ then Some i else find_close (Suc i) cs)"

definition splitHostPort :: "string \<Rightarrow> string \<times> string" where
  "splitHostPort addr =
     (if addr = [] then ([], [])
      else
        case (if hd addr = CHR ''['' then IndexByte addr CHR '']'' else None) of
          Some close \<Rightarrow>
            let ip = drop 1 (take close addr) in
            if close + 1 < length addr \<and> addr ! (close + 1) = CHR '':''
            then (ip, drop (close + 2) addr)
            else (ip, [])
        | None \<Rightarrow>
            (case LastIndexByte addr CHR '':'' of
               None \<Rightarrow> (addr, [])
             | Some li \<Rightarrow> (take li addr, drop (Suc li) addr)))"

definition parseBracket :: "string \<Rightarrow> parse_error + int \<times> Source \<times> string" where
  "parseBracket rest =
     (if rest = [] \<or> hd rest \<noteq> CHR ''['' then Inl (MissingOpenBracket rest)
      else
        case find_close 1 (tl rest) of
          None \<Rightarrow> Inl MissingCloseBracket
        | Some closeIdx \<Rightarrow>
            let body = drop 1 (take closeIdx rest);
                remainder = TrimLeft (drop (Suc closeIdx) rest) [SP, TAB]
            in (case IndexByte body SP of
                  None \<Rightarrow> Inl (MissingSpaceInBracket body)
                | Some sp \<Rightarrow>
                    (case Atoi (take sp body) of
                       Inl e \<Rightarrow> Inl (InvalidDB (take sp body) e)
                     | Inr db \<Rightarrow>
                         let (ip, port) = splitHostPort (drop (Suc sp) body)
                         in Inr (db, \<lparr>src_IP = ip, src_Port = port\<rparr>, remainder))))"

section \<open>Quoted arguments\<close>

text \<open>
  The main loop of \<^verbatim>\<open>parseQuotedArgs\<close>: the index, the flag \<^verbatim>\<open>inQuote\<close>, the
  string builder, the arguments so far and the bytes from the index on.
\<close>

definition simple_escape :: "char \<Rightarrow> char" where
  "simple_escape c =
     (if c = CHR ''n'' then LF
      else if c = CHR ''r'' then CR
      else if c = CHR ''t'' then TAB
      else if c = CHR ''a'' then CHR 0x07
      else if c = CHR ''b'' then CHR 0x08
      else c)"

fun quoted_loop ::
  "nat \<Rightarrow> bool \<Rightarrow> string \<Rightarrow> string list \<Rightarrow> string \<Rightarrow> parse_error + string list" where
  "quoted_loop i inQuote sb args [] = (if inQuote then Inl UnterminatedQuote else Inr args)"
| "quoted_loop i False sb args (c # cs) =
     (if c = SP \<or> c = TAB then quoted_loop (i + 1) False sb args cs
      else if c = DQ then quoted_loop (i + 1) True [] args cs
      else Inl (UnexpectedChar c i))"
| "quoted_loop i True sb args (c # cs) =
     (if c = BS \<and> cs \<noteq> [] then
        (case cs of
           CHR ''x'' # a # b # cs' \<Rightarrow>
             (case hex_byte a b of
                Some v \<Rightarrow> quoted_loop (i + 4) True (sb @ [v]) args cs'
              | None \<Rightarrow> quoted_loop (i + 2) True (sb @ [CHR ''x'']) args (a # b # cs'))
         | nxt # cs' \<Rightarrow> quoted_loop (i + 2) True (sb @ [simple_escape nxt]) args cs')
      else if c = DQ then quoted_loop (i + 1) False [] (args @ [sb]) cs
      else quoted_loop (i + 1) True (sb @ [c]) args cs)"

definition parseQuotedArgs :: "string \<Rightarrow> parse_error + string list" where
  "parseQuotedArgs s = quoted_loop 0 False [] [] s"

section \<open>A whole line\<close>

definition Parse :: "unicode \<Rightarrow> string \<Rightarrow> parse_error + Event" where
  "Parse U original =
     (let line0 = TrimRight original CRLF in
      if line0 = [] then Inl EmptyLine
      else
        let line = (if hd line0 = CHR ''+'' then tl line0 else line0) in
        case IndexByte line SP of
          None \<Rightarrow> Inl (NoSpaceAfterTimestamp original)
        | Some spaceIdx \<Rightarrow>
            if spaceIdx = 0 then Inl (NoSpaceAfterTimestamp original)
            else
              (case parseTimestamp (take spaceIdx line) of
                 Inl e \<Rightarrow> Inl e
               | Inr ts \<Rightarrow>
                   (case parseBracket (drop (Suc spaceIdx) line) of
                      Inl e \<Rightarrow> Inl e
                    | Inr (db, src, rest) \<Rightarrow>
                        (case parseQuotedArgs rest of
                           Inl e \<Rightarrow> Inl e
                         | Inr [] \<Rightarrow> Inl NoCommand
                         | Inr (a0 # as) \<Rightarrow>
                             let cmd = ToUpper U a0 in
                             Inr \<lparr>ev_Timestamp = ts, ev_DB = db, ev_Source = src,
                                  ev_Command = cmd,
                                  ev_Subcommand =
                                    (if cmd \<in> set commandsWithSubcommand \<and> as \<noteq> []
                                     then ToUpper U (hd as) else []),
                                  ev_Args = as\<rparr>))))"


section \<open>Facts about timestamps\<close>

lemma pad_nanos_exact:
  "\<bar>f\<bar> < 10 ^ l \<Longrightarrow> k + l \<le> 9 \<Longrightarrow> pad_nanos k f = f * 10 ^ k \<and> \<bar>f * 10 ^ k\<bar> < 10 ^ (k + l)"
proof (induction k arbitrary: f l)
  case 0
  then show ?case by simp
next
  case (Suc k)
  have "\<bar>f * 10\<bar> < 10 ^ Suc l" using Suc.prems(1) by (simp add: abs_mult)
  moreover have "(10 :: int) ^ Suc l \<le> 10 ^ 9"
    using Suc.prems(2) by (intro power_increasing) simp_all
  ultimately have "wrap64 (f * 10) = f * 10" by (intro wrap64_id) auto
  with Suc.IH [OF \<open>\<bar>f * 10\<bar> < 10 ^ Suc l\<close>] Suc.prems(2) show ?case
    by (simp add: algebra_simps)
qed

text \<open>The magnitude of a parsed number is bounded by its number of bytes, sign included.\<close>

lemma ParseInt10_magnitude: "ParseInt10 s = Inr n \<Longrightarrow> \<bar>n\<bar> < 10 ^ length s"
proof -
  assume n: "ParseInt10 s = Inr n"
  define body where "body = (if hd s = CHR ''+'' \<or> hd s = CHR ''-'' then tl s else s)"
  from n obtain un where un: "parse_digits 0 body = Inr un" and "n = un \<or> n = - un"
    by (auto simp: ParseInt10_def ParseUint10_def Let_def body_def split: if_splits sum.splits)
  moreover have "0 \<le> un \<and> un < 10 ^ length body"
    using parse_digits_bounds [OF un] by simp
  moreover have "(10 :: int) ^ length body \<le> 10 ^ length s"
    by (intro power_increasing) (auto simp: body_def)
  ultimately show ?thesis by (elim disjE) linarith+
qed

lemma pad_nanos_fraction:
  assumes "ParseInt10 frac = Inr f" and "length frac \<le> 9"
  shows "pad_nanos (9 - length frac) f = f * 10 ^ (9 - length frac) \<and>
         \<bar>pad_nanos (9 - length frac) f\<bar> < 1000000000"
  using pad_nanos_exact [OF ParseInt10_magnitude [OF assms(1)], of "9 - length frac"] assms(2)
  by simp

lemma parseTimestamp_time_Unix:
  assumes "parseTimestamp s = Inr t"
  shows "\<exists>sec n. t = time_Unix sec n \<and> 0 \<le> sec \<and> sec < 2 ^ 63 \<and> \<bar>n\<bar> < 1000000000"
proof -
  obtain secStr fracStr where split:
    "(case IndexByte s CHR ''.'' of None \<Rightarrow> (s, []) | Some dot \<Rightarrow> (take dot s, drop (Suc dot) s)) =
       (secStr, fracStr)"
    by fastforce
  define frac where "frac = (if 9 < length fracStr then take 9 fracStr else fracStr)"
  from assms split obtain sec where sec: "ParseInt10 secStr = Inr sec" "0 \<le> sec"
    and t: "t = time_Unix sec 0 \<or>
      (\<exists>f. ParseInt10 frac = Inr f \<and> t = time_Unix sec (pad_nanos (9 - length frac) f))"
    by (auto simp: parseTimestamp_def frac_def Let_def split: sum.splits if_splits)
  have "length frac \<le> 9" by (simp add: frac_def)
  with t obtain n where "t = time_Unix sec n" "\<bar>n\<bar> < 1000000000"
    using pad_nanos_fraction by fastforce
  with sec ParseInt10_range [OF sec(1)] show ?thesis by blast
qed

lemma parseTimestamp_dot:
  assumes "all_digits secStr" and "secStr \<noteq> []" and "all_digits fracStr" and "fracStr \<noteq> []"
    and "parse_digits 0 secStr = Inr sec" and "sec < 2 ^ 63"
    and "length fracStr \<le> 9" and "parse_digits 0 fracStr = Inr f"
  shows "parseTimestamp (secStr @ CHR ''.'' # fracStr) =
           Inr \<lparr>unix_sec = sec, nanosec = f * 10 ^ (9 - length fracStr)\<rparr>"
proof -
  have idx: "IndexByte (secStr @ CHR ''.'' # fracStr) CHR ''.'' = Some (length secStr)"
    using assms(1) by (simp add: go_str all_digits_notin)
  have sec: "ParseInt10 secStr = Inr sec" and sec0: "0 \<le> sec"
    using assms by (auto intro: ParseInt10_digits dest: parse_digits_bounds)
  have f: "0 \<le> f \<and> f < 10 ^ length fracStr"
    using parse_digits_bounds [OF assms(8)] by simp
  moreover have "(10 :: int) ^ length fracStr \<le> 10 ^ 9"
    using assms(7) by (intro power_increasing) simp_all
  ultimately have "f < 2 ^ 63" by simp
  then have frac: "ParseInt10 fracStr = Inr f"
    using assms by (intro ParseInt10_digits) simp_all
  have pad: "pad_nanos (9 - length fracStr) f = f * 10 ^ (9 - length fracStr)"
    and "\<bar>f * 10 ^ (9 - length fracStr)\<bar> < 1000000000"
    using pad_nanos_fraction [OF frac assms(7)] by auto
  moreover have "0 \<le> f * 10 ^ (9 - length fracStr)" using f by simp
  ultimately have "time_Unix sec (f * 10 ^ (9 - length fracStr)) =
      \<lparr>unix_sec = sec, nanosec = f * 10 ^ (9 - length fracStr)\<rparr>"
    using sec0 assms(6) by (intro time_Unix_normal) simp_all
  with idx sec sec0 frac pad assms(4,7) show ?thesis
    by (simp add: parseTimestamp_def)
qed

section \<open>Facts about the bracketed segment\<close>

lemma find_close_skip: "CHR '']'' \<notin> set a \<Longrightarrow> find_close i (a @ b) = find_close (i + length a) b"
  by (induction a arbitrary: i) auto

text \<open>A peer address is free of blanks and quotes, so no bracket inside it closes the segment.\<close>

definition plain_addr :: "string \<Rightarrow> bool" where
  "plain_addr addr = list_all (\<lambda>c. c \<noteq> SP \<and> c \<noteq> TAB \<and> c \<noteq> DQ) addr"

lemma find_close_plain_addr:
  "plain_addr a \<Longrightarrow> find_close i (a @ CHR '']'' # SP # DQ # rest) = Some (i + length a)"
proof (induction a arbitrary: i)
  case Nil
  then show ?case by (simp add: blank_def)
next
  case (Cons c a)
  have "\<not> blank x \<and> x \<noteq> DQ" if "a @ CHR '']'' # SP # DQ # rest = x # xs" for x xs
    using that Cons.prems by (cases a) (auto simp: plain_addr_def blank_def)
  then have "dropWhile blank (a @ CHR '']'' # SP # DQ # rest) = a @ CHR '']'' # SP # DQ # rest"
    and "hd (a @ CHR '']'' # SP # DQ # rest) \<noteq> DQ"
    by (metis dropWhile.simps(2) list.sel(1) neq_Nil_conv append_is_Nil_conv list.distinct(1))+
  then have "find_close i ((c # a) @ CHR '']'' # SP # DQ # rest) =
      find_close (Suc i) (a @ CHR '']'' # SP # DQ # rest)"
    by simp
  with Cons show ?case by (simp add: plain_addr_def)
qed

lemma all_digits_Itoa_body: "all_digits (Itoa db) \<or> (\<exists>t. Itoa db = CHR ''-'' # t \<and> all_digits t)"
  by (simp add: Itoa_def)

lemma Itoa_notin: "c \<noteq> CHR ''-'' \<Longrightarrow> digit_of c = None \<Longrightarrow> c \<notin> set (Itoa db)"
  using all_digits_Itoa_body [of db] by (auto dest: all_digits_notin)

lemma parseBracket_segment:
  assumes "plain_addr addr" and "int64_range db"
  shows "parseBracket (CHR ''['' # Itoa db @ SP # addr @ CHR '']'' # SP # DQ # rest) =
           Inr (db, \<lparr>src_IP = fst (splitHostPort addr), src_Port = snd (splitHostPort addr)\<rparr>, DQ # rest)"
proof -
  let ?pre = "Itoa db @ [SP]"
  have "CHR '']'' \<notin> set ?pre" by (simp add: Itoa_notin digit_of_nondigits)
  then have close: "find_close 1 (Itoa db @ SP # addr @ CHR '']'' # SP # DQ # rest) =
      Some (1 + length ?pre + length addr)"
    using find_close_skip [of ?pre 1] find_close_plain_addr [OF assms(1)] by simp
  have "SP \<notin> set (Itoa db)" by (simp add: Itoa_notin digit_of_nondigits)
  then have sp: "IndexByte (Itoa db @ SP # addr) SP = Some (length (Itoa db))"
    by (simp add: go_str)
  show ?thesis
    using close sp assms(2)
    by (simp add: parseBracket_def ParseInt10_Itoa TrimLeft_def Let_def split: prod.splits)
qed

section \<open>Facts about quoted arguments\<close>

text \<open>
  The representations of a byte that MONITOR prints inside quotes: the byte itself, a
  backslash escape, or a hexadecimal escape.
\<close>

definition escape_pairs :: "(char \<times> char) list" where
  "escape_pairs =
     [(DQ, DQ), (BS, BS), (CHR ''n'', LF), (CHR ''r'', CR), (CHR ''t'', TAB),
      (CHR ''a'', CHR 0x07), (CHR ''b'', CHR 0x08)]"

definition repr_byte :: "char \<Rightarrow> string \<Rightarrow> bool" where
  "repr_byte c r =
     (case r of
        [x] \<Rightarrow> x = c \<and> c \<noteq> DQ \<and> c \<noteq> BS
      | [x, y] \<Rightarrow> x = BS \<and> (y, c) \<in> set escape_pairs
      | [x, y, h, l] \<Rightarrow> x = BS \<and> y = CHR ''x'' \<and> hex_byte h l = Some c
      | _ \<Rightarrow> False)"

definition quote_with :: "(char \<Rightarrow> string) \<Rightarrow> string \<Rightarrow> string" where
  "quote_with rep a = [DQ] @ concat (map rep a) @ [DQ]"

definition render_args :: "(char \<Rightarrow> string) \<Rightarrow> string list \<Rightarrow> string" where
  "render_args rep args = join [SP] (map (quote_with rep) args)"

lemma quoted_loop_repr_byte:
  assumes "repr_byte c r"
  shows "quoted_loop i True sb args (r @ rest) = quoted_loop (i + length r) True (sb @ [c]) args rest"
proof -
  from assms consider (plain) "r = [c]" "c \<noteq> DQ" "c \<noteq> BS"
    | (escape) y where "r = [BS, y]" "(y, c) \<in> set escape_pairs"
    | (hexa) h l where "r = [BS, CHR ''x'', h, l]" "hex_byte h l = Some c"
    by (auto simp: repr_byte_def split: list.splits)
  then show ?thesis
  proof cases
    case plain
    then show ?thesis by simp
  next
    case escape
    then show ?thesis by (auto simp: escape_pairs_def simple_escape_def)
  next
    case hexa
    then show ?thesis by (simp add: eval_nat_numeral)
  qed
qed

lemma quoted_loop_repr:
  assumes "\<And>c. repr_byte c (rep c)"
  shows "quoted_loop i True sb args (concat (map rep a) @ rest) =
           quoted_loop (i + length (concat (map rep a))) True (sb @ a) args rest"
proof (induction a arbitrary: i sb)
  case Nil
  then show ?case by simp
next
  case (Cons c a)
  then show ?case by (simp add: quoted_loop_repr_byte [OF assms] add.assoc del: length_concat)
qed

lemma quoted_loop_quote_with:
  assumes "\<And>c. repr_byte c (rep c)"
  shows "quoted_loop i False sb args (quote_with rep a @ rest) =
           quoted_loop (i + length (quote_with rep a)) False [] (args @ [a]) rest"
  using quoted_loop_repr [OF assms, of "Suc i" "[]" args a "DQ # rest"]
  by (simp add: quote_with_def add.assoc del: length_concat)

lemma quoted_loop_render:
  assumes "\<And>c. repr_byte c (rep c)"
  shows "quoted_loop i False sb args (render_args rep as) = Inr (args @ as)"
proof (induction as arbitrary: i sb args)
  case Nil
  then show ?case by (simp add: render_args_def)
next
  case (Cons a as)
  show ?case
  proof (cases as)
    case Nil
    with quoted_loop_quote_with [OF assms, of i sb args a "[]"] show ?thesis
      by (simp add: render_args_def)
  next
    case (Cons b bs)
    then have "render_args rep (a # as) = quote_with rep a @ SP # render_args rep as"
      by (simp add: render_args_def)
    with quoted_loop_quote_with [OF assms, of i sb args a "SP # render_args rep as"] Cons.IH
    show ?thesis by simp
  qed
qed

text \<open>
  The line MONITOR prints, as the comment on \<^verbatim>\<open>Parse\<close> documents it: a timestamp in
  seconds and microseconds, the database and peer address in brackets, the arguments in
  quotes. How the server renders a byte inside quotes is the parameter \<open>rep\<close>.
\<close>

definition monitor_line ::
  "(char \<Rightarrow> string) \<Rightarrow> int \<Rightarrow> int \<Rightarrow> int \<Rightarrow> string \<Rightarrow> string list \<Rightarrow> string" where
  "monitor_line rep sec usec db addr args =
     CHR ''+'' # (Itoa sec @ CHR ''.'' # pad_int 6 usec) @ SP #
     (CHR ''['' # Itoa db @ SP # addr @ CHR '']'' # SP # render_args rep args) @ CRLF"

lemma render_args_quote_ends:
  "\<exists>mid. render_args rep (a # as) = DQ # mid @ [DQ]"
proof (induction as arbitrary: a)
  case Nil
  show ?case by (rule exI [of _ "concat (map rep a)"]) (simp add: render_args_def quote_with_def)
next
  case (Cons b bs)
  then obtain mid where "render_args rep (b # bs) = DQ # mid @ [DQ]" by blast
  then have "render_args rep (a # b # bs) = DQ # (concat (map rep a) @ [DQ, SP, DQ] @ mid) @ [DQ]"
    by (simp add: render_args_def quote_with_def)
  then show ?case by blast
qed

lemma parseTimestamp_line:
  assumes "0 \<le> sec" "sec < 2 ^ 63" "0 \<le> usec" "usec < 10 ^ 6"
  shows "parseTimestamp (Itoa sec @ CHR ''.'' # pad_int 6 usec) =
           Inr \<lparr>unix_sec = sec, nanosec = usec * 1000\<rparr>"
proof -
  have "parse_digits 0 (pad_int 6 usec) = Inr usec"
    using parse_digits_pad_int [of 0 usec 6] assms by simp
  moreover have "pad_int 6 usec \<noteq> []" by (metis length_pad_int list.size(3) zero_neq_numeral)
  ultimately show ?thesis
    using parseTimestamp_dot [of "Itoa sec" "pad_int 6 usec" sec usec] assms
    by (simp add: Itoa_def parse_digits_show_pos)
qed

lemma Parse_line:
  assumes rep: "\<And>c. repr_byte c (rep c)"
    and "0 \<le> sec" "sec < 2 ^ 63" "0 \<le> usec" "usec < 10 ^ 6"
    and "int64_range db" "plain_addr addr"
  shows "Parse U (monitor_line rep sec usec db addr (cmd # args)) =
    Inr \<lparr>ev_Timestamp = \<lparr>unix_sec = sec, nanosec = usec * 1000\<rparr>, ev_DB = db,
         ev_Source = \<lparr>src_IP = fst (splitHostPort addr), src_Port = snd (splitHostPort addr)\<rparr>,
         ev_Command = ToUpper U cmd,
         ev_Subcommand =
           (if ToUpper U cmd \<in> set commandsWithSubcommand \<and> args \<noteq> []
            then ToUpper U (hd args) else []),
         ev_Args = args\<rparr>"
proof -
  let ?ts = "Itoa sec @ CHR ''.'' # pad_int 6 usec"
  obtain mid where mid: "render_args rep (cmd # args) = DQ # mid @ [DQ]"
    using render_args_quote_ends by blast
  let ?seg = "CHR ''['' # Itoa db @ SP # addr @ CHR '']'' # SP # DQ # mid @ [DQ]"
  have "TrimRight ((CHR ''+'' # ?ts @ SP # ?seg) @ CRLF) CRLF = CHR ''+'' # ?ts @ SP # ?seg"
    by (subst TrimRight_append_cut) (simp_all add: TrimRight_id)
  then have line: "TrimRight (monitor_line rep sec usec db addr (cmd # args)) CRLF =
      CHR ''+'' # ?ts @ SP # ?seg"
    by (simp add: monitor_line_def mid)
  have "SP \<notin> set ?ts"
    using all_digits_notin [OF all_digits_pad_int, of SP] by (simp add: Itoa_notin digit_of_nondigits)
  then have "IndexByte (?ts @ SP # ?seg) SP = Some (length ?ts)"
    using IndexByte_append_notin [of SP ?ts "SP # ?seg"] by simp
  moreover have "parseQuotedArgs (DQ # mid @ [DQ]) = Inr (cmd # args)"
    using quoted_loop_render [OF rep, of 0 "[]" "[]" "cmd # args"] mid by (simp add: parseQuotedArgs_def)
  ultimately show ?thesis
    using parseTimestamp_line [OF assms(2-5)] parseBracket_segment [OF assms(7,6), of "mid @ [DQ]"]
    by (simp add: Parse_def line Let_def)
qed

section \<open>Properties of the parser\<close>

text \<open>
  C1: Parsing inverts the MONITOR line format. Whatever escapes the server uses for the bytes
  of the arguments (plain, backslash or hexadecimal), for any 64-bit non-negative second,
  microsecond, database number and blank-free peer address, the parsed event carries exactly
  that timestamp, database, split address and the argument bytes; its command is the
  upper-cased first argument, and its subcommand the upper-cased second one exactly for the
  commands that route by subcommand.
\<close>

theorem Parse_monitor_line:
  assumes rep: "\<And>c. repr_byte c (rep c)"
    and "0 \<le> sec" "sec < 2 ^ 63" "0 \<le> usec" "usec < 10 ^ 6"
    and "int64_range db" "plain_addr addr"
  shows "Parse U (monitor_line rep sec usec db addr (cmd # args)) =
    Inr \<lparr>ev_Timestamp = \<lparr>unix_sec = sec, nanosec = usec * 1000\<rparr>, ev_DB = db,
         ev_Source = \<lparr>src_IP = fst (splitHostPort addr), src_Port = snd (splitHostPort addr)\<rparr>,
         ev_Command = ToUpper U cmd,
         ev_Subcommand =
           (if ToUpper U cmd \<in> set commandsWithSubcommand \<and> args \<noteq> []
            then ToUpper U (hd args) else []),
         ev_Args = args\<rparr>"
  using assms by (rule Parse_line)

theorem Parse_monitor_line_witness:
  "Parse ascii_only
     (monitor_line (\<lambda>c. if c = DQ \<or> c = BS then [BS, c] else [c])
        1583789991 940458 0 ''127.0.0.1:54302'' [''config'', ''get'', ''maxmemory'']) =
   Inr \<lparr>ev_Timestamp = \<lparr>unix_sec = 1583789991, nanosec = 940458000\<rparr>, ev_DB = 0,
        ev_Source = \<lparr>src_IP = ''127.0.0.1'', src_Port = ''54302''\<rparr>,
        ev_Command = ''CONFIG'', ev_Subcommand = ''GET'', ev_Args = [''get'', ''maxmemory'']\<rparr>"
proof -
  have rep: "\<And>c. repr_byte c (if c = DQ \<or> c = BS then [BS, c] else [c])"
    by (simp add: repr_byte_def escape_pairs_def)
  have addr: "plain_addr ''127.0.0.1:54302''" by (simp add: plain_addr_def)
  show ?thesis
    by (subst Parse_monitor_line [OF rep]) (use addr in \<open>simp_all\<close>, code_simp)
qed

text \<open>
  The address splitter returns host and port for \<^verbatim>\<open>host:port\<close> (cutting at the last
  colon, so that a raw IPv6 address keeps its own), for the bracketed IPv6 form, and leaves an
  address without a colon (a unix peer, \<^verbatim>\<open>lua\<close>) whole with an empty port.
\<close>

theorem splitHostPort_forms:
  assumes "CHR '':'' \<notin> set port" and "CHR '']'' \<notin> set ip6"
    and "host = [] \<or> hd host \<noteq> CHR ''[''" and "CHR '':'' \<notin> set peer"
    and "peer = [] \<or> hd peer \<noteq> CHR ''[''"
  shows "splitHostPort (host @ CHR '':'' # port) = (host, port) \<and>
         splitHostPort (CHR ''['' # ip6 @ CHR '']'' # CHR '':'' # port) = (ip6, port) \<and>
         splitHostPort peer = (peer, [])"
proof (intro conjI)
  have "hd (host @ CHR '':'' # port) \<noteq> CHR ''[''" using assms(3) by (cases host) auto
  then show "splitHostPort (host @ CHR '':'' # port) = (host, port)"
    using assms(1) by (simp add: splitHostPort_def LastIndexByte_sep)
  show "splitHostPort (CHR ''['' # ip6 @ CHR '']'' # CHR '':'' # port) = (ip6, port)"
    using assms(2) by (simp add: splitHostPort_def IndexByte_append_notin nth_append)
  show "splitHostPort peer = (peer, [])"
    using assms(4,5) LastIndexByte_None_iff [of peer "CHR '':''"] by (auto simp: splitHostPort_def)
qed

theorem splitHostPort_forms_witness:
  "splitHostPort ''10.0.0.7:6379'' = (''10.0.0.7'', ''6379'') \<and>
   splitHostPort ''[::1]:6379'' = (''::1'', ''6379'') \<and>
   splitHostPort ''lua'' = (''lua'', [])"
  using splitHostPort_forms [of "''6379''" "''::1''" "''10.0.0.7''" "''lua''"] by simp

text \<open>
  A parsed timestamp is well formed: the nanosecond part is a proper fraction of a second,
  the second is never below -1 (the sign of the seconds is rejected), and the padding
  loop never overflows its 64-bit accumulator: it multiplies the fraction by the power of
  ten that its length leaves to nine digits.
\<close>

theorem parseTimestamp_well_formed:
  assumes "parseTimestamp s = Inr t"
  shows "0 \<le> nanosec t \<and> nanosec t < 1000000000 \<and> -1 \<le> unix_sec t \<and> unix_sec t < 2 ^ 63 \<and>
         (\<forall>frac f. ParseInt10 frac = Inr f \<and> length frac \<le> 9 \<longrightarrow>
            pad_nanos (9 - length frac) f = f * 10 ^ (9 - length frac))"
proof -
  have nonneg: "-1 \<le> unix_sec (time_Unix sec n) \<and> unix_sec (time_Unix sec n) < 2 ^ 63"
    if "0 \<le> sec" "sec < 2 ^ 63" "\<bar>n\<bar> < 1000000000" for sec n
  proof -
    have "-1 \<le> n div 1000000000" and "n div 1000000000 \<le> 0" using that by auto
    with that show ?thesis by (simp add: time_Unix_def wrap64_id)
  qed
  obtain sec n where t: "t = time_Unix sec n" "0 \<le> sec" "sec < 2 ^ 63" "\<bar>n\<bar> < 1000000000"
    using parseTimestamp_time_Unix [OF assms] by blast
  then show ?thesis
    using nonneg [of sec n] pad_nanos_fraction time_Unix_nanosec [of sec n] by auto
qed

theorem parseTimestamp_well_formed_witness:
  "parseTimestamp ''1583789992.123'' = Inr \<lparr>unix_sec = 1583789992, nanosec = 123000000\<rparr> \<and>
   (0 :: int) \<le> 123000000 \<and> (-1 :: int) \<le> 1583789992"
proof -
  have "parseTimestamp ''1583789992.123'' = Inr \<lparr>unix_sec = 1583789992, nanosec = 123000000\<rparr>"
    by code_simp
  with parseTimestamp_well_formed [OF this] show ?thesis by simp
qed

text \<open>
  The fraction of a timestamp is read with \<^verbatim>\<open>ParseInt\<close>, which takes a sign: a line
  with the timestamp \<^verbatim>\<open>0.-5\<close> is not rejected as malformed and is placed before the Unix
  epoch, although a negative second is an error.
\<close>

theorem parseTimestamp_signed_fraction:
  "parseTimestamp ''0.-5'' = Inr \<lparr>unix_sec = -1, nanosec = 950000000\<rparr> \<and>
   parseTimestamp ''-1.5'' = Inl (NegativeTimestamp ''-1.5'')"
  by code_simp

text \<open>
  Whatever bytes a client sends as its command, the command and subcommand of a parsed event
  are valid UTF-8 (upper-casing replaces invalid bytes), so they can be used as metric labels,
  which panic on anything else; and an event always has a command list of at least one element
  behind it: the subcommand is non-empty only if there is an argument.
\<close>

theorem Parse_command_utf8:
  assumes "Parse U line = Inr ev"
  shows "valid_utf8 (ev_Command ev) \<and> valid_utf8 (ev_Subcommand ev) \<and>
    (ev_Subcommand ev \<noteq> [] \<longrightarrow> ev_Args ev \<noteq> [] \<and> ev_Subcommand ev = ToUpper U (hd (ev_Args ev)))"
  using assms
  by (auto simp: Parse_def Let_def valid_utf8_ToUpper split: if_splits option.splits sum.splits list.splits prod.splits)

theorem Parse_command_utf8_witness:
  "\<exists>ev. Parse ascii_only (''+1.000000 [0 h:1] '' @ [DQ, CHR 0xFF, DQ]) = Inr ev \<and> valid_utf8 (ev_Command ev)"
proof -
  have "\<not> isl (Parse ascii_only (''+1.000000 [0 h:1] '' @ [DQ, CHR 0xFF, DQ]))" by code_simp
  then obtain ev where "Parse ascii_only (''+1.000000 [0 h:1] '' @ [DQ, CHR 0xFF, DQ]) = Inr ev"
    by (cases "Parse ascii_only (''+1.000000 [0 h:1] '' @ [DQ, CHR 0xFF, DQ])") auto
  with Parse_command_utf8 [OF this] show ?thesis by blast
qed

end
