(* ===== verification/Encode.thy ===== *)
theory Encode
  imports GoTime Parser
begin

text \<open>
  Serialization of events, \<^verbatim>\<open>encode\<close> and \<^verbatim>\<open>quoteText\<close> of
  \<^verbatim>\<open>internal/output/output.go\<close>: one JSON object or one text line per event. The JSON
  encoder is that of \<^verbatim>\<open>encoding/json\<close> on this struct: strings escape quotes,
  backslashes, control bytes and the HTML characters, and replace invalid UTF-8.
\<close>

section \<open>JSON strings\<close>

definition hex_char :: "int \<Rightarrow> char" where
  "hex_char d = (if d < 10 then char_of (48 + d) else char_of (87 + d))"

definition json_byte :: "char \<Rightarrow> string" where
  "json_byte c =
     (if c = DQ \<or> c = BS then [BS, c]
      else if c = LF then [BS, CHR ''n'']
      else if c = CR then [BS, CHR ''r'']
      else if c = TAB then [BS, CHR ''t'']
      else if c = CHR 0x08 then [BS, CHR ''b'']
      else if c = CHR 0x0C then [BS, CHR ''f'']
      else if of_char c < (0x20 :: int) \<or> c = CHR ''<'' \<or> c = CHR ''>'' \<or> c = CHR ''&''
      then [BS] @ ''u00'' @ [hex_char (of_char c div 16), hex_char (of_char c mod 16)]
      else [c])"

function json_body :: "string \<Rightarrow> string" where
  "json_body s =
     (if s = [] then []
      else if of_char (hd s) < (0x80 :: int) then json_byte (hd s) @ json_body (tl s)
      else
        let r = fst (decode_rune s); w = snd (decode_rune s) in
        if r = rune_error \<and> w = 1 then [BS] @ ''ufffd'' @ json_body (drop w s)
        else if r = 0x2028 \<or> r = 0x2029
        then [BS] @ ''u202'' @ [hex_char (r mod 16)] @ json_body (drop w s)
        else take w s @ json_body (drop w s))"
  by pat_completeness auto
termination
  by (relation "measure length") (auto simp: decode_rune_width)

declare json_body.simps [simp del]

definition json_string :: "string \<Rightarrow> string" where
  "json_string s = [DQ] @ json_body s @ [DQ]"

definition json_strings :: "string list \<Rightarrow> string" where
  "json_strings xs = [CHR ''[''] @ join [CHR '',''] (map json_string xs) @ [CHR '']'']"

text \<open>A member of an object: the name, a colon, the value; commas are put by \<open>join\<close>.\<close>

definition json_member :: "string \<Rightarrow> string \<Rightarrow> string" where
  "json_member name val = json_string name @ [CHR '':''] @ val"

definition json_object :: "string list \<Rightarrow> string" where
  "json_object ms = [CHR ''{''] @ join [CHR '',''] ms @ [CHR ''}'']"

section \<open>Events\<close>

datatype enc_error = YearOutOfRange | UnknownFormat string

text \<open>\<^verbatim>\<open>time.Time.MarshalJSON\<close> fails outside the years 0 to 9999.\<close>

definition json_time :: "gotime \<Rightarrow> enc_error + string" where
  "json_time t =
     (let (y, m, d) = civil (unix_sec t div 86400 + 719162)
      in if 0 \<le> y \<and> y \<le> 9999 then Inr ([DQ] @ RFC3339Nano t @ [DQ]) else Inl YearOutOfRange)"

definition json_event :: "Event \<Rightarrow> enc_error + string" where
  "json_event ev =
     (case json_time (ev_Timestamp ev) of
        Inl e \<Rightarrow> Inl e
      | Inr ts \<Rightarrow>
          Inr (json_object
            ([json_member ''timestamp'' ts,
              json_member ''db'' (Itoa (ev_DB ev)),
              json_member ''source''
                (json_object [json_member ''ip'' (json_string (src_IP (ev_Source ev))),
                              json_member ''port'' (json_string (src_Port (ev_Source ev)))]),
              json_member ''command'' (json_string (ev_Command ev))] @
             (if ev_Subcommand ev = [] then []
              else [json_member ''subcommand'' (json_string (ev_Subcommand ev))]) @
             (if ev_Args ev = [] then [] else [json_member ''args'' (json_strings (ev_Args ev))]))))"

primrec quote_bytes :: "string \<Rightarrow> string" where
  "quote_bytes [] = []"
| "quote_bytes (c # cs) = (if c = DQ \<or> c = BS then BS # c # quote_bytes cs else c # quote_bytes cs)"

definition quoteText :: "string \<Rightarrow> string" where
  "quoteText s =
     (if \<not> ContainsAny s [SP, TAB, LF, CR, DQ] then s else [DQ] @ quote_bytes s @ [DQ])"

definition text_event :: "Event \<Rightarrow> string" where
  "text_event ev =
     RFC3339Nano (ev_Timestamp ev) @ '' db='' @ Itoa (ev_DB ev) @
     '' src='' @ src_IP (ev_Source ev) @ '':'' @ src_Port (ev_Source ev) @
     '' cmd='' @ ev_Command ev @
     (if ev_Subcommand ev \<noteq> [] then '' sub='' @ ev_Subcommand ev else []) @
     concat (map (\<lambda>a. SP # quoteText a) (ev_Args ev)) @ [LF]"

definition encode :: "unicode \<Rightarrow> Event \<Rightarrow> string \<Rightarrow> enc_error + string" where
  "encode U ev format =
     (let f = ToLower U format in
      if f = [] \<or> f = ''json'' then
        (case json_event ev of Inl e \<Rightarrow> Inl e | Inr buf \<Rightarrow> Inr (buf @ [LF]))
      else if f = ''text'' then Inr (text_event ev)
      else Inl (UnknownFormat format))"

section \<open>Facts about quoting\<close>

abbreviation text_repr :: "char \<Rightarrow> string" where
  "text_repr \<equiv> \<lambda>c. if c = DQ \<or> c = BS then [BS, c] else [c]"

lemma repr_byte_text: "repr_byte c (text_repr c)"
  by (simp add: repr_byte_def escape_pairs_def)

lemma quote_bytes_concat: "quote_bytes s = concat (map text_repr s)"
  by (induction s) simp_all

lemma quote_bytes_escape_loop: "quote_bytes s = escape_loop s"
  by (induction s) simp_all

lemma ContainsAny_set: "ContainsAny s cs \<longleftrightarrow> set s \<inter> set cs \<noteq> {}"
  by (auto simp: ContainsAny_def list_ex_iff)

lemma command_arg_quoteText: "command_arg a = quoteText a"
  by (auto simp: command_arg_def quoteText_def quote_bytes_escape_loop ContainsAny_set)

section \<open>Facts about JSON\<close>

text \<open>Bytes that no JSON string body contains: the control bytes.\<close>

lemma hex_char_range: "0 \<le> d \<Longrightarrow> d < 16 \<Longrightarrow> 0x20 \<le> (of_char (hex_char d) :: int)"
  by (simp add: hex_char_def)

lemma json_byte_no_control: "x \<in> set (json_byte c) \<Longrightarrow> 0x20 \<le> (of_char x :: int)"
proof (cases "c \<in> {DQ, BS, LF, CR, TAB, CHR 0x08, CHR 0x0C}")
  case True
  then have "list_all (\<lambda>x. 0x20 \<le> (of_char x :: int)) (json_byte c)"
    by (elim insertE) (simp_all add: json_byte_def)
  then show "x \<in> set (json_byte c) \<Longrightarrow> 0x20 \<le> (of_char x :: int)" by (simp add: list_all_iff)
next
  case False
  then have eq: "json_byte c =
      (if of_char c < (0x20 :: int) \<or> c = CHR ''<'' \<or> c = CHR ''>'' \<or> c = CHR ''&''
       then [BS] @ ''u00'' @ [hex_char (of_char c div 16), hex_char (of_char c mod 16)] else [c])"
    by (simp add: json_byte_def)
  have "0 \<le> (of_char c :: int) div 16" "(of_char c :: int) div 16 < 16"
    using of_char_nonneg [of c] of_char_less_256 [of c] by linarith+
  then have "list_all (\<lambda>x. 0x20 \<le> (of_char x :: int)) (json_byte c)"
    unfolding eq by (simp add: hex_char_range del: of_char_less_256 of_char_nonneg)
  then show "x \<in> set (json_byte c) \<Longrightarrow> 0x20 \<le> (of_char x :: int)" by (simp add: list_all_iff)
qed

lemma json_body_no_control: "x \<in> set (json_body s) \<Longrightarrow> 0x20 \<le> (of_char x :: int)"
proof (induction s rule: json_body.induct)
  case (1 s)
  let ?r = "fst (decode_rune s)" and ?w = "snd (decode_rune s)"
  consider "s = []" | "s \<noteq> []" "of_char (hd s) < (0x80 :: int)"
    | "s \<noteq> []" "\<not> of_char (hd s) < (0x80 :: int)" "?r = rune_error \<and> ?w = 1"
    | "s \<noteq> []" "\<not> of_char (hd s) < (0x80 :: int)" "\<not> (?r = rune_error \<and> ?w = 1)" "?r = 0x2028 \<or> ?r = 0x2029"
    | "s \<noteq> []" "\<not> of_char (hd s) < (0x80 :: int)" "\<not> (?r = rune_error \<and> ?w = 1)" "\<not> (?r = 0x2028 \<or> ?r = 0x2029)"
    by blast
  then show ?case
  proof cases
    case 1
    with "1.prems" show ?thesis by (simp add: json_body.simps)
  next
    case 2
    with "1.prems" "1.IH"(1) show ?thesis
      by (subst (asm) json_body.simps) (auto dest: json_byte_no_control)
  next
    case 3
    with "1.prems" "1.IH"(2) show ?thesis
      by (subst (asm) json_body.simps) auto
  next
    case 4
    with "1.prems" "1.IH"(3) show ?thesis
      by (subst (asm) json_body.simps) (auto simp: hex_char_range)
  next
    case 5
    have "0x20 \<le> (of_char x :: int)" if "x \<in> set (take ?w s)"
      using decode_rune_bytes [OF 5(1) _ 5(3) that] 5(2) by simp
    moreover have "x \<in> set (take ?w s) \<or> x \<in> set (json_body (drop ?w s))"
      using "1.prems" 5 by (subst (asm) json_body.simps) (auto simp: Let_def)
    ultimately show ?thesis using "1.IH"(4) [OF 5(1,2) refl refl 5(3,4)] by blast
  qed
qed

lemma join_no_char: "c \<notin> set sep \<Longrightarrow> (\<And>x. x \<in> set xs \<Longrightarrow> c \<notin> set x) \<Longrightarrow> c \<notin> set (join sep xs)"
  by (induction sep xs rule: join.induct) auto

lemma json_string_no_LF [simp]: "LF \<notin> set (json_string s)"
  using json_body_no_control [of LF s] by (auto simp: json_string_def)

lemma json_member_LF [simp]: "LF \<in> set (json_member name val) \<longleftrightarrow> LF \<in> set val"
  by (simp add: json_member_def)

lemma json_object_no_LF: "list_all (\<lambda>m. LF \<notin> set m) ms \<Longrightarrow> LF \<notin> set (json_object ms)"
  using join_no_char [of LF "[CHR '','']" ms] by (simp add: json_object_def list_all_iff)

lemma json_strings_no_LF [simp]: "LF \<notin> set (json_strings xs)"
proof -
  have "LF \<notin> set (join [CHR '',''] (map json_string xs))" by (rule join_no_char) auto
  then show ?thesis by (simp add: json_strings_def)
qed

lemma Itoa_no_LF [simp]: "LF \<notin> set (Itoa n)"
  by (simp add: Itoa_notin digit_of_nondigits)

lemma RFC3339Nano_no_LF [simp]: "LF \<notin> set (RFC3339Nano t)"
  by (rule RFC3339Nano_bytes) (simp_all add: digit_of_nondigits)

lemma json_event_no_LF:
  assumes "json_event ev = Inr buf"
  shows "LF \<notin> set buf"
proof -
  obtain ts where ts: "json_time (ev_Timestamp ev) = Inr ts"
    using assms by (auto simp: json_event_def split: sum.splits)
  then have "LF \<notin> set ts" by (auto simp: json_time_def Let_def split: prod.splits if_splits)
  then show ?thesis
    using assms ts by (auto simp: json_event_def simp del: append_Cons intro!: json_object_no_LF)
qed

lemma count_list_quoteText: "count_list (quoteText a) LF = count_list a LF"
proof -
  have "count_list (quote_bytes a) LF = count_list a LF" by (induction a) auto
  then show ?thesis by (simp add: quoteText_def)
qed

section \<open>Properties of the encoders\<close>

text \<open>
  The JSON encoding is one line per event. Whatever bytes the arguments hold, a JSON record
  contains exactly one line feed, the one that ends it, so a line-oriented consumer reads one
  record per event; the only failure is a timestamp beyond the year 9999.
\<close>

lemma encode_json_one_line:
  assumes "ToLower U format = [] \<or> ToLower U format = ''json''"
  shows "(case encode U ev format of
            Inr line \<Rightarrow> \<exists>buf. line = buf @ [LF] \<and> LF \<notin> set buf
          | Inl e \<Rightarrow> e = YearOutOfRange \<and>
              \<not> (case civil (unix_sec (ev_Timestamp ev) div 86400 + 719162) of
                   (y, m, d) \<Rightarrow> 0 \<le> y \<and> y \<le> 9999))"
proof (cases "json_event ev")
  case (Inl e)
  then have "e = YearOutOfRange \<and>
      \<not> (case civil (unix_sec (ev_Timestamp ev) div 86400 + 719162) of (y, m, d) \<Rightarrow> 0 \<le> y \<and> y \<le> 9999)"
    by (auto simp: json_event_def json_time_def split: sum.splits prod.splits if_splits)
  with Inl assms show ?thesis by (auto simp: encode_def)
next
  case (Inr buf)
  with assms json_event_no_LF [OF Inr] show ?thesis by (auto simp: encode_def)
qed

text \<open>
  C38: The text encoding is not one line per event: it quotes an argument that holds a line feed but leaves the
  byte as it is, so an event yields one line more for every line feed in its fields, and an
  audited client can write what looks like further records.
\<close>

theorem encode_text_line_feeds:
  assumes "ToLower U format = ''text''"
  shows "\<exists>line. encode U ev format = Inr line \<and>
    count_list line LF = 1 + count_list (src_IP (ev_Source ev)) LF + count_list (src_Port (ev_Source ev)) LF
      + count_list (ev_Command ev) LF + count_list (ev_Subcommand ev) LF
      + (\<Sum>a\<leftarrow>ev_Args ev. count_list a LF)"
proof -
  have args: "count_list (concat (map (\<lambda>a. SP # quoteText a) as)) LF = (\<Sum>a\<leftarrow>as. count_list a LF)" for as
    by (induction as) (simp_all add: count_list_quoteText)
  have "count_list (RFC3339Nano t) LF = 0" and "count_list (Itoa n) LF = 0" for t n
    by (simp_all add: count_list_0_iff)
  then show ?thesis using assms args by (simp add: encode_def text_event_def)
qed

theorem encode_text_line_feeds_witness:
  "\<exists>line. encode ascii_only (sample_event ''SET'' [[LF, LF]]) ''text'' = Inr line \<and>
     count_list line LF = 3"
proof -
  have "ToLower ascii_only ''text'' = ''text''" by code_simp
  from encode_text_line_feeds [OF this, of "sample_event ''SET'' [[LF, LF]]"]
  show ?thesis by (simp add: sample_event_def numeral_3_eq_3)
qed



end
