(* ===== verification/Output.thy ===== *)
theory Output
  imports Encode Effect "HOL-Library.Sublist"
begin

text \<open>
  The audit sinks of \<^verbatim>\<open>internal/output\<close>. A \<open>Sink\<close> is standard output, a rotated file
  or a network endpoint; a \<open>Consumer\<close> is a sink behind a buffered channel and its own goroutine;
  the manager fans an event out to all consumers. Dialling, writing to a connection and to the
  rotated file (the lumberjack package) are answers of the environment, one \<open>write_env\<close> for
  each call of a sink.

  Channels have at least one slot here, as configuration validation ensures; the rendezvous of an
  unbuffered channel is not modelled.
\<close>

section \<open>Sinks\<close>

text \<open>What the operating system answers during one call of a sink; \<open>None\<close> is success.\<close>

record write_env =
  we_dial :: "string option"
  we_write :: "string option"
  we_close :: "string option"
  we_took :: int

datatype sink_error = EncodeFailed enc_error | DialFailed string | WriteFailed string

record NetSink =
  ns_network :: string
  ns_address :: string
  ns_timeout :: int
  ns_keepalive :: int
  ns_format :: string
  ns_conn :: bool

record NetOptions =
  no_Network :: string
  no_Address :: string
  no_Timeout :: int
  no_Keepalive :: int
  no_Format :: string

datatype net_error = NetworkMustBeUdpOrTcp string | AddressRequired

definition NewNetSink :: "NetOptions \<Rightarrow> net_error + NetSink" where
  "NewNetSink opts =
     (if no_Network opts \<noteq> ''udp'' \<and> no_Network opts \<noteq> ''tcp''
      then Inl (NetworkMustBeUdpOrTcp (no_Network opts))
      else if no_Address opts = [] then Inl AddressRequired
      else Inr \<lparr>ns_network = no_Network opts, ns_address = no_Address opts,
                ns_timeout = (if no_Timeout opts \<le> 0 then 5 * Second else no_Timeout opts),
                ns_keepalive = no_Keepalive opts, ns_format = no_Format opts, ns_conn = False\<rparr>)"

definition NetSink_dial :: "write_env \<Rightarrow> NetSink \<Rightarrow> sink_error option \<times> effect list" where
  "NetSink_dial env s =
     (map_option DialFailed (we_dial env),
      [NetDial (ns_network s) (ns_address s) (ns_timeout s) (ns_keepalive s)])"

definition NetSink_Write ::
  "unicode \<Rightarrow> write_env \<Rightarrow> Event \<Rightarrow> NetSink \<Rightarrow> NetSink \<times> sink_error option \<times> effect list" where
  "NetSink_Write U env ev s =
     (case encode U ev (ns_format s) of
        Inl e \<Rightarrow> (s, Some (EncodeFailed e), [])
      | Inr buf \<Rightarrow>
          (let (dial_err, dialled) = (if ns_conn s then (None, []) else NetSink_dial env s) in
           case dial_err of
             Some e \<Rightarrow> (s, Some e, dialled)
           | None \<Rightarrow>
               (case we_write env of
                  Some w \<Rightarrow> (s\<lparr>ns_conn := False\<rparr>, Some (WriteFailed w), dialled @ [NetWrite buf, NetClose])
                | None \<Rightarrow> (s\<lparr>ns_conn := True\<rparr>, None, dialled @ [NetWrite buf]))))"

definition NetSink_Close :: "write_env \<Rightarrow> NetSink \<Rightarrow> NetSink \<times> string option \<times> effect list" where
  "NetSink_Close env s =
     (if ns_conn s then (s\<lparr>ns_conn := False\<rparr>, we_close env, [NetClose]) else (s, None, []))"

text \<open>The rotated file is configured here and written by the lumberjack package.\<close>

record FileOptions =
  fo_Path :: string
  fo_MaxSizeMB :: int
  fo_MaxBackups :: int
  fo_MaxAgeDays :: int
  fo_Compress :: bool
  fo_LocalTime :: bool
  fo_Format :: string

record FileSink =
  fs_Filename :: string
  fs_MaxSize :: int
  fs_MaxBackups :: int
  fs_MaxAge :: int
  fs_Compress :: bool
  fs_LocalTime :: bool
  fs_format :: string

definition NewFileSink :: "FileOptions \<Rightarrow> FileSink" where
  "NewFileSink opts =
     \<lparr>fs_Filename = fo_Path opts,
      fs_MaxSize = (if fo_MaxSizeMB opts \<le> 0 then 100 else fo_MaxSizeMB opts),
      fs_MaxBackups = fo_MaxBackups opts, fs_MaxAge = fo_MaxAgeDays opts,
      fs_Compress = fo_Compress opts, fs_LocalTime = fo_LocalTime opts, fs_format = fo_Format opts\<rparr>"

definition FileSink_Write ::
  "unicode \<Rightarrow> write_env \<Rightarrow> Event \<Rightarrow> FileSink \<Rightarrow> sink_error option \<times> effect list" where
  "FileSink_Write U env ev s =
     (case encode U ev (fs_format s) of
        Inl e \<Rightarrow> (Some (EncodeFailed e), [])
      | Inr buf \<Rightarrow> (map_option WriteFailed (we_write env), [FileWrite (fs_Filename s) buf]))"

record StdoutSink =
  ss_format :: string

definition NewStdoutSink :: "string \<Rightarrow> StdoutSink" where
  "NewStdoutSink format = \<lparr>ss_format = format\<rparr>"

definition StdoutSink_Write ::
  "unicode \<Rightarrow> write_env \<Rightarrow> Event \<Rightarrow> StdoutSink \<Rightarrow> sink_error option \<times> effect list" where
  "StdoutSink_Write U env ev s =
     (case encode U ev (ss_format s) of
        Inl e \<Rightarrow> (Some (EncodeFailed e), [])
      | Inr buf \<Rightarrow> (map_option WriteFailed (we_write env), [StdoutWrite buf]))"

text \<open>The interface \<^verbatim>\<open>Sink\<close>, dispatched on the implementation.\<close>

datatype Sink = Stdout StdoutSink | File FileSink | Net NetSink

fun Sink_Name :: "Sink \<Rightarrow> string" where
  "Sink_Name (Stdout s) = ''stdout''"
| "Sink_Name (File s) = ''file''"
| "Sink_Name (Net s) = ns_network s"

fun Sink_Write ::
  "unicode \<Rightarrow> write_env \<Rightarrow> Event \<Rightarrow> Sink \<Rightarrow> Sink \<times> sink_error option \<times> effect list" where
  "Sink_Write U env ev (Stdout s) = (Stdout s, StdoutSink_Write U env ev s)"
| "Sink_Write U env ev (File s) = (File s, FileSink_Write U env ev s)"
| "Sink_Write U env ev (Net s) = apfst Net (NetSink_Write U env ev s)"

fun Sink_Close :: "write_env \<Rightarrow> Sink \<Rightarrow> Sink \<times> string option \<times> effect list" where
  "Sink_Close env (Stdout s) = (Stdout s, None, [])"
| "Sink_Close env (File s) = (File s, we_close env, [FileClose (fs_Filename s)])"
| "Sink_Close env (Net s) = apfst Net (NetSink_Close env s)"

section \<open>The consumer\<close>

record Consumer =
  c_sink :: Sink
  c_in :: "Event chan"
  c_dropped :: "64 word"
  c_written :: "64 word"
  c_errors :: "64 word"
  c_failing :: bool
  c_drop :: bool
  c_metrics :: bool

text \<open>Making a channel with a negative size panics.\<close>

definition NewConsumer :: "Sink \<Rightarrow> int \<Rightarrow> bool \<Rightarrow> Consumer option" where
  "NewConsumer sink buffer dropOnFull =
     (if buffer < 0 then None
      else Some \<lparr>c_sink = sink, c_in = make_chan (nat buffer), c_dropped = 0, c_written = 0,
                 c_errors = 0, c_failing = False, c_drop = dropOnFull, c_metrics = False\<rparr>)"

definition SetMetricsSink :: "bool \<Rightarrow> Consumer \<Rightarrow> Consumer" where
  "SetMetricsSink installed c = c\<lparr>c_metrics := installed\<rparr>"

definition QueueDepth :: "Consumer \<Rightarrow> nat" where
  "QueueDepth c = length (ch_buf (c_in c))"

definition QueueCapacity :: "Consumer \<Rightarrow> nat" where
  "QueueCapacity c = ch_cap (c_in c)"

abbreviation c_name :: "Consumer \<Rightarrow> string" where
  "c_name c \<equiv> Sink_Name (c_sink c)"

text \<open>\<^verbatim>\<open>Submit\<close>; \<open>None\<close> is a sender that blocks on the full channel.\<close>

definition Submit :: "Consumer \<Rightarrow> Event \<Rightarrow> (Consumer \<times> effect list) option" where
  "Submit c ev =
     (if c_drop c then
        (case ch_send (c_in c) ev of
           Some q \<Rightarrow> Some (c\<lparr>c_in := q\<rparr>, [])
         | None \<Rightarrow> Some (c\<lparr>c_dropped := c_dropped c + 1\<rparr>,
                         to_sink (c_metrics c) [COutputDropped (c_name c)]))
      else
        (case ch_send (c_in c) ev of
           Some q \<Rightarrow> Some (c\<lparr>c_in := q\<rparr>, [])
         | None \<Rightarrow> None))"

record Counters =
  ct_Written :: "64 word"
  ct_Dropped :: "64 word"
  ct_Errors :: "64 word"

definition Counters_snapshot :: "Consumer \<Rightarrow> Counters" where
  "Counters_snapshot c =
     \<lparr>ct_Written = c_written c, ct_Dropped = c_dropped c, ct_Errors = c_errors c\<rparr>"

text \<open>
  \<^verbatim>\<open>writeOne\<close>. The drain loop repeats its body with another stage tag and stops at the first
  error; the flag in the result says whether the write succeeded.
\<close>

definition write_event ::
  "string \<Rightarrow> unicode \<Rightarrow> write_env \<Rightarrow> Event \<Rightarrow> Consumer \<Rightarrow> bool \<times> Consumer \<times> effect list" where
  "write_event stage U env ev c =
     (let (sink', err, io) = Sink_Write U env ev (c_sink c);
          name = c_name c;
          c1 = c\<lparr>c_sink := sink'\<rparr>;
          before = SinkWrite name ev # io @ to_sink (c_metrics c) [COutputWrite name (we_took env)]
      in case err of
           Some e \<Rightarrow>
             (False, c1\<lparr>c_errors := c_errors c + 1, c_failing := True\<rparr>,
              before @ to_sink (c_metrics c) [COutputError name] @
              (if \<not> c_failing c
               then to_sink (c_metrics c) [COutputFailing name True] @
                    [Report [(''stage'', stage), (''output'', name), (''command'', ev_Command ev)]]
               else []))
         | None \<Rightarrow>
             (True, c1\<lparr>c_written := c_written c + 1, c_failing := False\<rparr>,
              before @ to_sink (c_metrics c) [COutputWritten name] @
              (if c_failing c then to_sink (c_metrics c) [COutputFailing name False] else [])))"

definition writeOne :: "unicode \<Rightarrow> write_env \<Rightarrow> Event \<Rightarrow> Consumer \<Rightarrow> Consumer \<times> effect list" where
  "writeOne U env ev c = snd (write_event ''output.write'' U env ev c)"

text \<open>
  \<^verbatim>\<open>Run\<close> as the steps of its goroutine, interleaved with the submissions of the dispatcher.
  While running, the loop takes an event or sees the cancelled context; then
  \<^verbatim>\<open>drainAfterShutdown\<close> takes what is buffered until the channel is empty, a write fails or
  its deadline fires; the deferred function closes the sink. An action that is not enabled gives
  \<open>None\<close>.
\<close>

datatype phase = Running | Draining | Closing | Closed

datatype c_action =
    ASubmit Event
  | AWrite write_env
  | ACancel
  | ADrain write_env
  | ADeadline
  | AEmpty
  | AClose write_env

definition drain_one ::
  "unicode \<Rightarrow> write_env \<Rightarrow> Consumer \<Rightarrow> (phase \<times> Consumer \<times> effect list) option" where
  "drain_one U env c =
     (case ch_recv (c_in c) of
        None \<Rightarrow> None
      | Some (ev, q) \<Rightarrow>
          (case write_event ''output.write.shutdown'' U env ev (c\<lparr>c_in := q\<rparr>) of
             (ok, c', es) \<Rightarrow> Some (if ok then Draining else Closing, c', es)))"

definition close_sink :: "write_env \<Rightarrow> Consumer \<Rightarrow> Consumer \<times> effect list" where
  "close_sink env c =
     (case Sink_Close env (c_sink c) of
        (sink', err, io) \<Rightarrow>
          (c\<lparr>c_sink := sink'\<rparr>,
           SinkClose (c_name c) # io @
           (case err of None \<Rightarrow> [] | Some e \<Rightarrow> [Report [(''stage'', ''output.close''), (''output'', c_name c)]])))"

fun consumer_step ::
  "unicode \<Rightarrow> c_action \<Rightarrow> phase \<Rightarrow> Consumer \<Rightarrow> (phase \<times> Consumer \<times> effect list) option" where
  "consumer_step U (ASubmit ev) ph c = map_option (\<lambda>(c', es). (ph, c', es)) (Submit c ev)"
| "consumer_step U (AWrite env) ph c =
     (if ph = Running then
        (case ch_recv (c_in c) of
           None \<Rightarrow> None
         | Some (ev, q) \<Rightarrow> Some (Running, writeOne U env ev (c\<lparr>c_in := q\<rparr>)))
      else None)"
| "consumer_step U ACancel ph c = (if ph = Running then Some (Draining, c, []) else None)"
| "consumer_step U (ADrain env) ph c = (if ph = Draining then drain_one U env c else None)"
| "consumer_step U ADeadline ph c = (if ph = Draining then Some (Closing, c, []) else None)"
| "consumer_step U AEmpty ph c =
     (if ph = Draining \<and> ch_buf (c_in c) = [] then Some (Closing, c, []) else None)"
| "consumer_step U (AClose env) ph c =
     (if ph = Closing then Some (Closed, close_sink env c) else None)"

text \<open>The phases in the order in which a consumer goes through them.\<close>

fun phase_rank :: "phase \<Rightarrow> nat" where
  "phase_rank Running = 0"
| "phase_rank Draining = 1"
| "phase_rank Closing = 2"
| "phase_rank Closed = 3"

instantiation phase :: linorder
begin

definition less_eq_phase :: "phase \<Rightarrow> phase \<Rightarrow> bool" where
  "less_eq_phase p q \<longleftrightarrow> phase_rank p \<le> phase_rank q"

definition less_phase :: "phase \<Rightarrow> phase \<Rightarrow> bool" where
  "less_phase p q \<longleftrightarrow> phase_rank p < phase_rank q"

instance
proof
  show "p = q" if "p \<le> q" "q \<le> p" for p q :: phase
    using that by (cases p; cases q) (simp_all add: less_eq_phase_def)
qed (auto simp: less_eq_phase_def less_phase_def)

end

fun consumer_run ::
  "unicode \<Rightarrow> c_action list \<Rightarrow> phase \<Rightarrow> Consumer \<Rightarrow> (phase \<times> Consumer \<times> effect list) option" where
  "consumer_run U [] ph c = Some (ph, c, [])"
| "consumer_run U (a # as) ph c =
     (case consumer_step U a ph c of
        None \<Rightarrow> None
      | Some (ph1, c1, es) \<Rightarrow>
          (case consumer_run U as ph1 c1 of
             None \<Rightarrow> None
           | Some (ph2, c2, fs) \<Rightarrow> Some (ph2, c2, es @ fs)))"

text \<open>The events handed to \<^verbatim>\<open>Submit\<close> along a run.\<close>

fun submitted :: "c_action list \<Rightarrow> Event list" where
  "submitted [] = []"
| "submitted (ASubmit ev # as) = ev # submitted as"
| "submitted (a # as) = submitted as"

section \<open>The manager\<close>

type_synonym Manager = "Consumer list"

definition NewManager :: Manager where
  "NewManager = []"

definition Manager_Add :: "Consumer \<Rightarrow> Manager \<Rightarrow> Manager" where
  "Manager_Add c m = m @ [c]"

text \<open>\<^verbatim>\<open>Dispatch\<close> submits to one consumer after the other; a blocking one holds up the rest.\<close>

fun Dispatch :: "Event \<Rightarrow> Manager \<Rightarrow> (Manager \<times> effect list) option" where
  "Dispatch ev [] = Some ([], [])"
| "Dispatch ev (c # cs) =
     (case Submit c ev of
        None \<Rightarrow> None
      | Some (c', es) \<Rightarrow>
          (case Dispatch ev cs of
             None \<Rightarrow> None
           | Some (cs', fs) \<Rightarrow> Some (c' # cs', es @ fs)))"

section \<open>Facts about one write\<close>

lemmas sink_writes = NetSink_Write_def FileSink_Write_def StdoutSink_Write_def NetSink_dial_def

lemma Sink_Name_Write [simp]: "Sink_Name (fst (Sink_Write U env ev s)) = Sink_Name s"
  by (cases s) (auto simp: sink_writes Let_def split: sum.splits option.splits)

lemma Sink_Write_quiet:
  "metric_calls (snd (snd (Sink_Write U env ev s))) = [] \<and>
   reports (snd (snd (Sink_Write U env ev s))) = [] \<and>
   attempts (snd (snd (Sink_Write U env ev s))) = []"
  by (cases s) (auto simp: sink_writes Let_def split: sum.splits option.splits)

lemma Sink_Close_quiet:
  "metric_calls (snd (snd (Sink_Close env s))) = [] \<and>
   reports (snd (snd (Sink_Close env s))) = [] \<and>
   attempts (snd (snd (Sink_Close env s))) = [] \<and> Sink_Name (fst (Sink_Close env s)) = Sink_Name s"
  by (cases s) (auto simp: NetSink_Close_def)

lemma write_event_cases:
  assumes "write_event stage U env ev c = (ok, c', es)"
  shows "c_in c' = c_in c \<and> c_drop c' = c_drop c \<and> c_metrics c' = c_metrics c \<and>
      c_dropped c' = c_dropped c \<and> c_name c' = c_name c \<and> c_failing c' = (\<not> ok) \<and>
      c_written c' = c_written c + (if ok then 1 else 0) \<and>
      c_errors c' = c_errors c + (if ok then 0 else 1)"
    and "attempts es = [ev]"
    and "reports es =
      (if \<not> ok \<and> \<not> c_failing c
       then [[(''stage'', stage), (''output'', c_name c), (''command'', ev_Command ev)]] else [])"
    and "metric_calls es =
      (if c_metrics c then
         [COutputWrite (c_name c) (we_took env),
          if ok then COutputWritten (c_name c) else COutputError (c_name c)] @
         (if ok = c_failing c then [COutputFailing (c_name c) (\<not> ok)] else [])
       else [])"
proof -
  obtain sink' err io where w: "Sink_Write U env ev (c_sink c) = (sink', err, io)"
    by (metis prod_cases3)
  have "Sink_Name sink' = c_name c" using Sink_Name_Write [of U env ev "c_sink c"] w by simp
  moreover have "metric_calls io = []" "reports io = []" "attempts io = []"
    using Sink_Write_quiet [of U env ev "c_sink c"] w by simp_all
  ultimately show "c_in c' = c_in c \<and> c_drop c' = c_drop c \<and> c_metrics c' = c_metrics c \<and>
      c_dropped c' = c_dropped c \<and> c_name c' = c_name c \<and> c_failing c' = (\<not> ok) \<and>
      c_written c' = c_written c + (if ok then 1 else 0) \<and>
      c_errors c' = c_errors c + (if ok then 0 else 1)"
    and "attempts es = [ev]"
    and "reports es =
      (if \<not> ok \<and> \<not> c_failing c
       then [[(''stage'', stage), (''output'', c_name c), (''command'', ev_Command ev)]] else [])"
    and "metric_calls es =
      (if c_metrics c then
         [COutputWrite (c_name c) (we_took env),
          if ok then COutputWritten (c_name c) else COutputError (c_name c)] @
         (if ok = c_failing c then [COutputFailing (c_name c) (\<not> ok)] else [])
       else [])"
    using assms w by (auto simp: write_event_def Let_def split: option.splits)
qed

text \<open>The step function, one case per enabled action.\<close>

lemma consumer_step_cases:
  assumes "consumer_step U a ph c = Some (ph', c', es)"
  obtains
    (submit) ev where "a = ASubmit ev" "ph' = ph" "Submit c ev = Some (c', es)"
  | (attempt) stage env ev q ok where "a = AWrite env \<and> ph = Running \<and> ph' = Running \<or>
        a = ADrain env \<and> ph = Draining \<and> ph' = (if ok then Draining else Closing)"
      "ch_recv (c_in c) = Some (ev, q)" "write_event stage U env ev (c\<lparr>c_in := q\<rparr>) = (ok, c', es)"
      "stage = ''output.write'' \<or> stage = ''output.write.shutdown''"
  | (idle) "a \<in> {ACancel, ADeadline, AEmpty}" "c' = c" "es = []"
  | (close) env where "a = AClose env" "ph = Closing" "ph' = Closed" "close_sink env c = (c', es)"
proof (cases a)
  case (AWrite env)
  with assms obtain ev q where r: "ph = Running" "ch_recv (c_in c) = Some (ev, q)"
    "writeOne U env ev (c\<lparr>c_in := q\<rparr>) = (c', es)" "ph' = Running"
    by (auto split: if_splits option.splits)
  then obtain ok where "write_event ''output.write'' U env ev (c\<lparr>c_in := q\<rparr>) = (ok, c', es)"
    unfolding writeOne_def by (metis prod.collapse)
  with AWrite r attempt show ?thesis by blast
next
  case (ADrain env)
  with assms obtain ev q ok where "ph = Draining" "ch_recv (c_in c) = Some (ev, q)"
    "write_event ''output.write.shutdown'' U env ev (c\<lparr>c_in := q\<rparr>) = (ok, c', es)"
    "ph' = (if ok then Draining else Closing)"
    by (auto simp: drain_one_def split: if_splits option.splits prod.splits)
  with ADrain attempt show ?thesis by blast
qed (use assms in \<open>auto intro: that split: if_splits\<close>)

text \<open>A consumer never goes back to an earlier phase.\<close>

lemma consumer_step_phase:
  assumes "consumer_step U a ph c = Some (ph', c', es)"
  shows "ph \<le> ph'"
  using assms by (cases a) (auto simp: less_eq_phase_def drain_one_def split: if_splits option.splits prod.splits)

lemma Submit_cases:
  assumes "Submit c ev = Some (c', es)"
  obtains
    (accepted) "ch_room (c_in c)" "c' = c\<lparr>c_in := (c_in c)\<lparr>ch_buf := ch_buf (c_in c) @ [ev]\<rparr>\<rparr>" "es = []"
  | (full) "\<not> ch_room (c_in c)" "c_drop c" "c' = c\<lparr>c_dropped := c_dropped c + 1\<rparr>"
      "es = to_sink (c_metrics c) [COutputDropped (c_name c)]"
  using assms by (auto simp: Submit_def go_chan split: if_splits option.splits)

lemma close_sink_facts:
  assumes "close_sink env c = (c', es)"
  shows "c' = c\<lparr>c_sink := c_sink c'\<rparr>" "c_name c' = c_name c" "metric_calls es = []" "attempts es = []"
    "reports es = [] \<or> reports es = [[(''stage'', ''output.close''), (''output'', c_name c)]]"
  using assms Sink_Close_quiet [of env "c_sink c"]
  by (auto simp: close_sink_def split: prod.splits option.splits)

text \<open>Invariants of a run: a predicate of the state, the actions so far and their effects.\<close>

lemma consumer_run_invariant:
  assumes "consumer_run U as ph c = Some (ph', c', es)" and "P ph c as0 es0"
    and step: "\<And>ph c as es a ph' c' fs. P ph c as es \<Longrightarrow> consumer_step U a ph c = Some (ph', c', fs) \<Longrightarrow>
      P ph' c' (as @ [a]) (es @ fs)"
  shows "P ph' c' (as0 @ as) (es0 @ es)"
  using assms(1,2)
proof (induction as arbitrary: ph c as0 es0 es)
  case Nil
  then show ?case by simp
next
  case (Cons a as)
  then obtain ph1 c1 es1 fs where "consumer_step U a ph c = Some (ph1, c1, es1)"
    "consumer_run U as ph1 c1 = Some (ph', c', fs)" "es = es1 @ fs"
    by (auto split: option.splits)
  with Cons.IH [of ph1 c1 fs "as0 @ [a]" "es0 @ es1"] step [OF Cons.prems(2)] show ?case by simp
qed

lemma submitted_append [simp]: "submitted (a @ b) = submitted a @ submitted b"
  by (induction a rule: submitted.induct) simp_all

definition conserved :: "Consumer \<Rightarrow> c_action list \<Rightarrow> effect list \<Rightarrow> bool" where
  "conserved c as es \<longleftrightarrow>
     c_written c + c_errors c + c_dropped c + of_nat (QueueDepth c) = of_nat (length (submitted as)) \<and>
     of_nat (length (attempts es)) = c_written c + c_errors c \<and>
     subseq (attempts es @ ch_buf (c_in c)) (submitted as) \<and>
     (\<not> c_drop c \<longrightarrow> attempts es @ ch_buf (c_in c) = submitted as)"

lemma conserved_step:
  assumes "conserved c as es" and "consumer_step U a ph c = Some (ph', c', fs)"
  shows "conserved c' (as @ [a]) (es @ fs)"
  using assms(2)
proof (cases rule: consumer_step_cases)
  case (submit ev)
  from submit(3) show ?thesis
  proof (cases rule: Submit_cases)
    case accepted
    with assms(1) submit show ?thesis
      using list_emb_append_mono [of "(=)" "attempts es @ ch_buf (c_in c)" "submitted as" "[ev]" "[ev]"]
      by (auto simp: conserved_def QueueDepth_def algebra_simps)
  next
    case full
    with assms(1) submit show ?thesis
      by (auto simp: conserved_def QueueDepth_def algebra_simps)
  qed
next
  case (attempt stage env ev q ok)
  from write_event_cases [OF attempt(3)] assms(1) attempt(1,2) show ?thesis
    by (auto simp: conserved_def QueueDepth_def go_chan algebra_simps)
next
  case idle
  with assms(1) show ?thesis by (auto simp: conserved_def QueueDepth_def)
next
  case (close env)
  from close_sink_facts [OF close(4)] assms(1) close(1) show ?thesis
    by (cases c, cases c') (auto simp: conserved_def QueueDepth_def)
qed

section \<open>Properties\<close>

text \<open>
  C2: No event is lost without a trace. Whatever the interleaving of submissions, writes,
  failures and shutdown, the counters account for every event submitted to a consumer: written,
  failed, dropped, or still buffered (64-bit counters, so up to wrap-around). The sink sees the
  events in submission order, and without the drop policy it sees all of them but the buffered.
\<close>

theorem consumer_conservation:
  assumes "NewConsumer sink n dropOnFull = Some c0"
    and "consumer_run U as Running (SetMetricsSink m c0) = Some (ph, c, es)"
  shows "c_written c + c_errors c + c_dropped c + of_nat (QueueDepth c) = of_nat (length (submitted as)) \<and>
     of_nat (length (attempts es)) = c_written c + c_errors c \<and>
     subseq (attempts es @ ch_buf (c_in c)) (submitted as) \<and>
     (\<not> c_drop c \<longrightarrow> attempts es @ ch_buf (c_in c) = submitted as)"
proof -
  have "conserved (SetMetricsSink m c0) [] []"
    using assms(1) by (auto simp: NewConsumer_def SetMetricsSink_def conserved_def QueueDepth_def
        make_chan_def split: if_splits)
  then have "conserved c ([] @ as) ([] @ es)"
    by (rule consumer_run_invariant [OF assms(2), where P = "\<lambda>_. conserved"]) (rule conserved_step)
  then show ?thesis by (simp add: conserved_def)
qed

text \<open>Answers of the environment for the examples: success, and a refused write.\<close>

definition env_ok :: write_env where
  "env_ok = \<lparr>we_dial = None, we_write = None, we_close = None, we_took = 0\<rparr>"

definition env_broken :: write_env where
  "env_broken = \<lparr>we_dial = None, we_write = Some ''EPIPE'', we_close = None, we_took = 0\<rparr>"

definition sample_consumer :: "bool \<Rightarrow> Consumer" where
  "sample_consumer drp = \<lparr>c_sink = Stdout \<lparr>ss_format = ''text''\<rparr>, c_in = \<lparr>ch_buf = [], ch_cap = 1\<rparr>,
     c_dropped = 0, c_written = 0, c_errors = 0, c_failing = False, c_drop = drp, c_metrics = False\<rparr>"

definition sample_acts :: "c_action list" where
  "sample_acts = [ASubmit (sample_event ''GET'' []), ASubmit (sample_event ''SET'' []), AWrite env_ok,
     ASubmit (sample_event ''DEL'' []), ACancel, ADrain env_broken, AClose env_ok]"

lemma NewConsumer_sample:
  "NewConsumer (Stdout \<lparr>ss_format = ''text''\<rparr>) 1 drp = Some (sample_consumer drp)"
  by (simp add: NewConsumer_def sample_consumer_def make_chan_def)

theorem consumer_conservation_witness:
  "\<exists>c es. consumer_run ascii_only sample_acts Running (SetMetricsSink True (sample_consumer True)) =
       Some (Closed, c, es) \<and>
     c_written c + c_errors c + c_dropped c + of_nat (QueueDepth c) = 3 \<and> c_dropped c = 1 \<and>
     of_nat (length (attempts es)) = c_written c + c_errors c"
proof -
  let ?r = "consumer_run ascii_only sample_acts Running (SetMetricsSink True (sample_consumer True))"
  have "map_option fst ?r = Some Closed" and
    d: "map_option (\<lambda>r. c_dropped (fst (snd r))) ?r = Some 1" by code_simp+
  then obtain c es where r: "?r = Some (Closed, c, es)" by auto
  have "length (submitted sample_acts) = 3" by code_simp
  with consumer_conservation [OF NewConsumer_sample r] r d show ?thesis by simp
qed

section \<open>Throttled failure reports\<close>

fun failing_flags :: "reg_call list \<Rightarrow> bool list" where
  "failing_flags [] = []"
| "failing_flags (COutputFailing n b # cs) = b # failing_flags cs"
| "failing_flags (c # cs) = failing_flags cs"

fun alternating :: "bool \<Rightarrow> bool list \<Rightarrow> bool" where
  "alternating b [] = True"
| "alternating b (x # xs) = (x = b \<and> alternating (\<not> b) xs)"

definition write_reports :: "effect list \<Rightarrow> tags list" where
  "write_reports es = filter (\<lambda>t. (''stage'', ''output.close'') \<notin> set t) (reports es)"

lemma failing_flags_append [simp]: "failing_flags (a @ b) = failing_flags a @ failing_flags b"
  by (induction a rule: failing_flags.induct) simp_all

lemma alternating_snoc:
  "alternating b (xs @ [x]) \<longleftrightarrow> alternating b xs \<and> x = (if even (length xs) then b else \<not> b)"
  by (induction b xs rule: alternating.induct) auto

definition throttled :: "Consumer \<Rightarrow> effect list \<Rightarrow> bool" where
  "throttled c es \<longleftrightarrow>
     c_metrics c \<and> alternating True (failing_flags (metric_calls es)) \<and>
     c_failing c = odd (length (failing_flags (metric_calls es))) \<and>
     length (write_reports es) = count_list (failing_flags (metric_calls es)) True"

lemma throttled_step:
  assumes "throttled c es" and "consumer_step U a ph c = Some (ph', c', fs)"
  shows "throttled c' (es @ fs)"
  using assms(2)
proof (cases rule: consumer_step_cases)
  case (submit ev)
  from submit(3) show ?thesis
    by (cases rule: Submit_cases) (use assms(1) in \<open>auto simp: throttled_def write_reports_def\<close>)
next
  case (attempt stage env ev q ok)
  from write_event_cases [OF attempt(3)] assms(1) attempt(4) show ?thesis
    by (auto simp: throttled_def write_reports_def alternating_snoc)
next
  case idle
  with assms(1) show ?thesis by (simp add: throttled_def)
next
  case (close env)
  from close_sink_facts [OF close(4)] assms(1) show ?thesis
    by (cases c, cases c') (auto simp: throttled_def write_reports_def)
qed

text \<open>
  C31: Failure reports are throttled to the transitions. Along every run the values a consumer
  writes to the \<^verbatim>\<open>output_failing\<close> gauge are True, False, True, ... in turn, the last one
  being the state of the sink, and a write failure is reported to the error tracker exactly as
  often as the gauge was raised: a sustained outage is one report.
\<close>

theorem failing_reports_throttled:
  assumes "NewConsumer sink n dropOnFull = Some c0"
    and "consumer_run U as Running (SetMetricsSink True c0) = Some (ph, c, es)"
  shows "alternating True (failing_flags (metric_calls es)) \<and>
     c_failing c = odd (length (failing_flags (metric_calls es))) \<and>
     length (write_reports es) = count_list (failing_flags (metric_calls es)) True"
proof -
  have "throttled (SetMetricsSink True c0) []"
    using assms(1) by (auto simp: NewConsumer_def SetMetricsSink_def throttled_def write_reports_def
        split: if_splits)
  then have "throttled c ([] @ es)"
    by (rule consumer_run_invariant [OF assms(2), where P = "\<lambda>_ c _. throttled c"]) (rule throttled_step)
  then show ?thesis by (simp add: throttled_def)
qed

theorem failing_reports_throttled_witness:
  "\<exists>c es. consumer_run ascii_only sample_acts Running (SetMetricsSink True (sample_consumer True)) =
       Some (Closed, c, es) \<and> c_failing c = odd (length (failing_flags (metric_calls es))) \<and>
     length (write_reports es) = 1"
proof -
  let ?r = "consumer_run ascii_only sample_acts Running (SetMetricsSink True (sample_consumer True))"
  have "map_option fst ?r = Some Closed" and
    d: "map_option (\<lambda>r. failing_flags (metric_calls (snd (snd r)))) ?r = Some [True]" by code_simp+
  then obtain c es where r: "?r = Some (Closed, c, es)" by auto
  with failing_reports_throttled [OF NewConsumer_sample r] d show ?thesis by simp
qed

section \<open>Shutdown\<close>

text \<open>What is left to do after the context was cancelled, as a bound on the steps.\<close>

fun work_left :: "phase \<Rightarrow> Consumer \<Rightarrow> nat" where
  "work_left Draining c = QueueDepth c + 2"
| "work_left Closing c = 1"
| "work_left ph c = 0"

lemma drain_step_decreases:
  assumes "consumer_step U a ph c = Some (ph', c', es)" "submitted [a] = []" "ph \<noteq> Running"
  shows "ph' \<noteq> Running \<and> work_left ph' c' < work_left ph c"
  using assms
proof (cases rule: consumer_step_cases)
  case (attempt stage env ev q ok)
  from write_event_cases(1) [OF attempt(3)] attempt(1,2) assms(3) show ?thesis
    by (auto simp: QueueDepth_def go_chan)
qed (use assms in \<open>auto simp: QueueDepth_def split: if_splits\<close>)

lemma drain_run_bounded:
  "consumer_run U as ph c = Some (ph', c', es) \<Longrightarrow> submitted as = [] \<Longrightarrow> ph \<noteq> Running \<Longrightarrow>
     ph' \<noteq> Running \<and> length as + work_left ph' c' \<le> work_left ph c"
proof (induction as arbitrary: ph c es)
  case Nil
  then show ?case by simp
next
  case (Cons a as)
  then obtain ph1 c1 es1 fs where s: "consumer_step U a ph c = Some (ph1, c1, es1)"
    "consumer_run U as ph1 c1 = Some (ph', c', fs)" by (auto split: option.splits)
  have "submitted [a] = []" "submitted as = []"
    using Cons.prems(2) submitted_append [of "[a]" as] by simp_all
  with drain_step_decreases [OF s(1)] Cons.IH [OF s(2)] Cons.prems(3) show ?case by fastforce
qed

text \<open>Unless a write failed or the deadline fired, the drain ends with an empty queue.\<close>

definition drained :: "phase \<Rightarrow> Consumer \<Rightarrow> c_action list \<Rightarrow> effect list \<Rightarrow> bool" where
  "drained ph c as es \<longleftrightarrow>
     ph \<noteq> Running \<and> (submitted as = [] \<and> ADeadline \<notin> set as \<and> \<not> c_failing c \<and> ph \<noteq> Draining \<longrightarrow>
       QueueDepth c = 0)"

lemma drained_step:
  assumes "drained ph c as es" and "consumer_step U a ph c = Some (ph', c', fs)"
  shows "drained ph' c' (as @ [a]) (es @ fs)"
  using assms(2)
proof (cases rule: consumer_step_cases)
  case (attempt stage env ev q ok)
  from write_event_cases(1) [OF attempt(3)] attempt(1) assms(1) show ?thesis
    by (auto simp: drained_def)
next
  case (close env)
  from close_sink_facts(1) [OF close(4)] close assms(1) show ?thesis
    by (cases c, cases c') (auto simp: drained_def QueueDepth_def)
qed (use assms in \<open>auto simp: drained_def QueueDepth_def split: if_splits\<close>)

text \<open>
  C17: Shutdown terminates. Once the context is cancelled and no more events arrive, a consumer
  takes at most two steps more than it has buffered events, it is never stuck before the sink is
  closed whatever the environment answers, and unless its deadline fired or its last write
  failed it leaves no event in the queue.
\<close>

theorem drain_terminates:
  assumes "consumer_run U as Draining c = Some (ph, c', es)" and "submitted as = []"
  shows "length as \<le> QueueDepth c + 2 \<and>
     (ph \<noteq> Closed \<longrightarrow> (\<exists>act. \<forall>env. act env \<in> {ADrain env, AEmpty, AClose env} \<and>
        consumer_step U (act env) ph c' \<noteq> None)) \<and>
     (ph \<in> {Closing, Closed} \<and> ADeadline \<notin> set as \<and> \<not> c_failing c' \<longrightarrow> QueueDepth c' = 0)"
proof -
  have b: "ph \<noteq> Running" "length as \<le> QueueDepth c + 2"
    using drain_run_bounded [OF assms] by simp_all
  have "drained ph c' ([] @ as) ([] @ es)"
    by (rule consumer_run_invariant [OF assms(1), where P = drained])
       (simp add: drained_def, rule drained_step)
  then have q: "ph \<in> {Closing, Closed} \<and> ADeadline \<notin> set as \<and> \<not> c_failing c' \<longrightarrow> QueueDepth c' = 0"
    using assms(2) by (auto simp: drained_def)
  have "\<exists>act. \<forall>env. act env \<in> {ADrain env, AEmpty, AClose env} \<and> consumer_step U (act env) ph c' \<noteq> None"
    if "ph \<noteq> Closed"
  proof (cases ph)
    case Draining
    show ?thesis
    proof (cases "ch_buf (c_in c')")
      case Nil
      with Draining show ?thesis by (intro exI [of _ "\<lambda>_. AEmpty"]) simp
    next
      case (Cons ev q)
      with Draining show ?thesis
        by (intro exI [of _ ADrain]) (auto simp: drain_one_def ch_recv_def split: prod.splits)
    qed
  next
    case Closing
    then show ?thesis by (intro exI [of _ AClose]) simp
  qed (use b that in simp_all)
  with b q show ?thesis by blast
qed

theorem drain_terminates_witness:
  "\<exists>c' es. consumer_run ascii_only [ADrain env_ok, AEmpty, AClose env_ok] Draining
      (sample_consumer True\<lparr>c_in := \<lparr>ch_buf = [sample_event ''GET'' []], ch_cap = 1\<rparr>\<rparr>) =
      Some (Closed, c', es) \<and> QueueDepth c' = 0"
proof -
  let ?r = "consumer_run ascii_only [ADrain env_ok, AEmpty, AClose env_ok] Draining
      (sample_consumer True\<lparr>c_in := \<lparr>ch_buf = [sample_event ''GET'' []], ch_cap = 1\<rparr>\<rparr>)"
  have "map_option fst ?r = Some Closed" and "map_option (\<lambda>r. c_failing (fst (snd r))) ?r = Some False"
    by code_simp+
  then obtain c' es where r: "?r = Some (Closed, c', es)" "\<not> c_failing c'" by auto
  with drain_terminates [OF r(1)] show ?thesis by auto
qed

section \<open>The queue contract\<close>

interpretation consumer_queue: drop_queue "\<lambda>c ev. map_option fst (Submit c ev)"
  "\<lambda>c. ch_buf (c_in c)" QueueCapacity c_drop c_dropped
  by unfold_locales
     (auto simp: Submit_def QueueCapacity_def ch_send_def ch_room_def split: if_splits)

lemma Dispatch_drop:
  assumes "\<forall>c\<in>set m. c_drop c"
  shows "\<exists>m' es. Dispatch ev m = Some (m', es) \<and>
     list_all2 (\<lambda>c c'. map_option fst (Submit c ev) = Some c') m m' \<and> (\<forall>c\<in>set m'. c_drop c)"
  using assms
proof (induction m)
  case Nil
  then show ?case by simp
next
  case (Cons c m)
  then obtain m' es where "Dispatch ev m = Some (m', es)"
    "list_all2 (\<lambda>c c'. map_option fst (Submit c ev) = Some c') m m'" "\<forall>c\<in>set m'. c_drop c" by auto
  moreover obtain c' fs where "Submit c ev = Some (c', fs)"
    using consumer_queue.submit_never_blocks [of c ev] Cons.prems by auto
  moreover from this have "c_drop c'"
    using consumer_queue.submit_frame [of c ev c'] Cons.prems by simp
  ultimately show ?case by simp
qed

text \<open>
  A slow sink cannot hold up the others: with the drop policy on every consumer, dispatching
  never blocks, however full the queues are, and each consumer gets exactly what its own
  \<^verbatim>\<open>Submit\<close> would do, so the state of one queue does not influence another.
\<close>

theorem Dispatch_never_blocks:
  assumes "\<forall>c\<in>set m. c_drop c"
  shows "\<exists>m' es. Dispatch ev m = Some (m', es) \<and>
     list_all2 (\<lambda>c c'. map_option fst (Submit c ev) = Some c') m m' \<and> (\<forall>c\<in>set m'. c_drop c)"
  using assms by (rule Dispatch_drop)

theorem Dispatch_never_blocks_witness:
  "\<exists>m' es. Dispatch (sample_event ''GET'' [])
     [sample_consumer True\<lparr>c_in := \<lparr>ch_buf = [sample_event ''GET'' []], ch_cap = 1\<rparr>\<rparr>, sample_consumer True] =
     Some (m', es)"
  using Dispatch_never_blocks [of
      "[sample_consumer True\<lparr>c_in := \<lparr>ch_buf = [sample_event ''GET'' []], ch_cap = 1\<rparr>\<rparr>, sample_consumer True]"
      "sample_event ''GET'' []"]
  by (auto simp: sample_consumer_def)

text \<open>
  A burst on one consumer: with the drop policy the queue keeps the oldest events up to its
  capacity and the counter counts the rest; without it, either everything fits or the sender
  blocks, and nothing is dropped.
\<close>

theorem consumer_burst:
  assumes "QueueDepth c \<le> QueueCapacity c"
  shows "(c_drop c \<longrightarrow> (\<exists>c'. submit_all (\<lambda>c ev. map_option fst (Submit c ev)) c evs = Some c' \<and>
            ch_buf (c_in c') = ch_buf (c_in c) @ take (QueueCapacity c - QueueDepth c) evs \<and>
            c_dropped c' = c_dropped c + of_nat (length evs - (QueueCapacity c - QueueDepth c)))) \<and>
         (\<not> c_drop c \<longrightarrow> (case submit_all (\<lambda>c ev. map_option fst (Submit c ev)) c evs of
            None \<Rightarrow> QueueCapacity c < QueueDepth c + length evs
          | Some c' \<Rightarrow> ch_buf (c_in c') = ch_buf (c_in c) @ evs \<and> c_dropped c' = c_dropped c))"
  using consumer_queue.submit_all_drop [of c evs] consumer_queue.submit_all_block [of c evs] assms
  unfolding QueueDepth_def by blast

theorem consumer_burst_witness:
  "\<exists>c'. submit_all (\<lambda>c ev. map_option fst (Submit c ev)) (sample_consumer True)
      [sample_event ''GET'' [], sample_event ''SET'' []] = Some c' \<and> c_dropped c' = 1"
  using consumer_burst [of "sample_consumer True" "[sample_event ''GET'' [], sample_event ''SET'' []]"]
  by (auto simp: sample_consumer_def QueueDepth_def QueueCapacity_def)

section \<open>Network sinks\<close>

text \<open>
  A network sink reconnects. Starting from any state, a write whose event can be encoded
  dials exactly when there is no connection, hands the whole encoded line to the connection at
  most once, leaves a connection behind exactly when it succeeded, and a connection whose write
  failed is closed before the next call dials again.
\<close>

theorem NetSink_Write_reconnects:
  assumes "encode U ev (ns_format s) = Inr buf" and "NetSink_Write U env ev s = (s', err, io)"
  shows "ns_conn s' = (err = None) \<and> s'\<lparr>ns_conn := ns_conn s\<rparr> = s \<and>
     io = (if ns_conn s then [] else [NetDial (ns_network s) (ns_address s) (ns_timeout s) (ns_keepalive s)]) @
          (if ns_conn s \<or> we_dial env = None
           then NetWrite buf # (if we_write env = None then [] else [NetClose]) else []) \<and>
     (err = None \<longleftrightarrow> (ns_conn s \<or> we_dial env = None) \<and> we_write env = None)"
  using assms by (cases s) (auto simp: NetSink_Write_def NetSink_dial_def split: option.splits if_splits)

definition sample_net :: NetSink where
  "sample_net = \<lparr>ns_network = ''tcp'', ns_address = ''h:1'', ns_timeout = 5 * Second, ns_keepalive = 0,
     ns_format = ''text'', ns_conn = True\<rparr>"

theorem NetSink_Write_reconnects_witness:
  "\<exists>s' err io. NetSink_Write ascii_only env_broken (sample_event ''GET'' []) sample_net = (s', err, io) \<and>
     \<not> ns_conn s' \<and> NetClose \<in> set io"
proof -
  have e: "ToLower ascii_only ''text'' = ''text''" by code_simp
  obtain s' err io where w: "NetSink_Write ascii_only env_broken (sample_event ''GET'' []) sample_net = (s', err, io)"
    by (metis prod_cases3)
  have "encode ascii_only (sample_event ''GET'' []) (ns_format sample_net) = Inr (text_event (sample_event ''GET'' []))"
    using e by (simp add: encode_def sample_net_def)
  from NetSink_Write_reconnects [OF this w] w show ?thesis
    by (auto simp: sample_net_def env_broken_def)
qed

end
