(* ===== verification/Resp.thy ===== *)
theory Resp
  imports GoText
begin

text \<open>
  The RESP2 subset of \<^verbatim>\<open>internal/resp/resp.go\<close>. A \<^verbatim>\<open>bufio.Reader\<close> is the
  string of the bytes not read yet (the peer closes the stream after them, so a read past
  the end is \<^verbatim>\<open>io.EOF\<close>); a reader returns its result and the bytes left. Writing
  goes to a connection that accepts or refuses the flushed bytes.
\<close>

datatype io_error = EOF | UnexpectedEOF | WriteFailed

datatype resp_error =
    Io io_error
  | EmptyResponse
  | ServerError string
  | UnexpectedResponse string
  | EmptyBulkHeader
  | ExpectedBulk string
  | InvalidBulkLength string num_error
  | MakeSlicePanic

text \<open>\<^verbatim>\<open>r.ReadString('\n')\<close>: the bytes up to and including the first line feed.\<close>

definition ReadString :: "string \<Rightarrow> (io_error + string) \<times> string" where
  "ReadString r =
     (case IndexByte r LF of
        None \<Rightarrow> (Inl EOF, [])
      | Some i \<Rightarrow> (Inr (take (Suc i) r), drop (Suc i) r))"

text \<open>\<^verbatim>\<open>io.ReadFull\<close> into a buffer of \<open>n\<close> bytes.\<close>

definition ReadFull :: "string \<Rightarrow> nat \<Rightarrow> (io_error + string) \<times> string" where
  "ReadFull r n =
     (if n \<le> length r then (Inr (take n r), drop n r)
      else (Inl (if r = [] then EOF else UnexpectedEOF), []))"

text \<open>The bytes \<^verbatim>\<open>WriteCommand\<close> hands to the buffered writer, in order.\<close>

definition bulk_frame :: "string \<Rightarrow> string" where
  "bulk_frame a = [CHR ''$''] @ Itoa (int (length a)) @ CRLF @ a @ CRLF"

definition command_frame :: "string list \<Rightarrow> string" where
  "command_frame args =
     [CHR ''*''] @ Itoa (int (length args)) @ CRLF @ concat (map bulk_frame args)"

text \<open>
  \<^verbatim>\<open>WriteCommand\<close>: on a connection that accepts writes, the frame is appended to what
  the peer has been sent; a refused write is returned as an error, wherever it occurs.
\<close>

definition WriteCommand :: "bool \<Rightarrow> string \<Rightarrow> string list \<Rightarrow> resp_error option \<times> string" where
  "WriteCommand accepts sent args =
     (if accepts then (None, sent @ command_frame args) else (Some (Io WriteFailed), sent))"

definition ReadSimpleString :: "string \<Rightarrow> resp_error option \<times> string" where
  "ReadSimpleString r =
     (case ReadString r of
        (Inl e, r') \<Rightarrow> (Some (Io e), r')
      | (Inr line0, r') \<Rightarrow>
          let line = TrimRight line0 CRLF in
          if line = [] then (Some EmptyResponse, r')
          else if hd line = CHR ''+'' then (None, r')
          else if hd line = CHR ''-'' then (Some (ServerError (tl line)), r')
          else (Some (UnexpectedResponse line), r'))"

text \<open>
  \<^verbatim>\<open>ReadBulkString\<close>. The length \<open>n + 2\<close> of the buffer is a 64-bit sum: where it
  wraps to a negative value, \<^verbatim>\<open>make\<close> panics.
\<close>

definition ReadBulkString :: "string \<Rightarrow> (resp_error + string) \<times> string" where
  "ReadBulkString r =
     (case ReadString r of
        (Inl e, r') \<Rightarrow> (Inl (Io e), r')
      | (Inr head0, r') \<Rightarrow>
          let head = TrimRight head0 CRLF in
          if head = [] then (Inl EmptyBulkHeader, r')
          else if hd head = CHR ''-'' then (Inl (ServerError (tl head)), r')
          else if hd head \<noteq> CHR ''$'' then (Inl (ExpectedBulk head), r')
          else
            (case Atoi (tl head) of
               Inl e \<Rightarrow> (Inl (InvalidBulkLength head e), r')
             | Inr n \<Rightarrow>
                 if n < 0 then (Inl (Io EOF), r')
                 else if wrap64 (n + 2) < 0 then (Inl MakeSlicePanic, r')
                 else
                   (case ReadFull r' (nat (wrap64 (n + 2))) of
                      (Inl e, r'') \<Rightarrow> (Inl (Io e), r'')
                    | (Inr buf, r'') \<Rightarrow> (Inr (take (nat n) buf), r''))))"

definition AuthArgs :: "string \<Rightarrow> string \<Rightarrow> string list" where
  "AuthArgs user pass =
     (if user \<noteq> [] then [''AUTH'', user, pass] else [''AUTH'', pass])"

section \<open>Facts about the readers\<close>

lemma ReadString_line:
  "LF \<notin> set a \<Longrightarrow> ReadString (a @ LF # rest) = (Inr (a @ [LF]), rest)"
  by (simp add: ReadString_def go_str)

lemma ReadString_crlf:
  "LF \<notin> set a \<Longrightarrow> ReadString (a @ CRLF @ rest) = (Inr (a @ CRLF), rest)"
  using ReadString_line [of "a @ [CR]" rest] by simp

lemma TrimRight_crlf:
  "a = [] \<or> last a \<notin> {CR, LF} \<Longrightarrow> TrimRight (a @ CRLF) CRLF = a"
  by (simp add: TrimRight_append_cut TrimRight_id)

lemma ReadString_rest: "ReadString r = (res, r') \<Longrightarrow> length r' \<le> length r"
  by (auto simp: ReadString_def split: option.splits)

lemma ReadString_ok:
  "ReadString r = (Inr line, r') \<Longrightarrow> r = line @ r' \<and> line \<noteq> []"
  by (auto simp: ReadString_def split: option.splits dest!: IndexByte_Some_split)

lemma last_Itoa_nat: "last (Itoa (int n)) \<notin> {CR, LF}"
proof -
  have "last (Itoa (int n)) \<in> set (Itoa (int n))" by (rule last_in_set) (simp add: Itoa_def)
  moreover have "CR \<notin> set (Itoa (int n))" and "LF \<notin> set (Itoa (int n))"
    by (rule all_digits_notin; simp add: digit_of_nondigits Itoa_def)+
  ultimately show ?thesis by force
qed

lemma ReadString_bulk_head:
  "ReadString (bulk_frame a @ rest) =
     (Inr ([CHR ''$''] @ Itoa (int (length a)) @ CRLF), a @ CRLF @ rest)"
proof -
  have "LF \<notin> set ([CHR ''$''] @ Itoa (int (length a)))"
    using all_digits_notin [of "Itoa (int (length a))" LF] by (simp add: digit_of_nondigits Itoa_def)
  from ReadString_crlf [OF this, of "a @ CRLF @ rest"] show ?thesis
    by (simp add: bulk_frame_def)
qed

lemma Atoi_length: "int n < 2 ^ 63 \<Longrightarrow> Atoi (Itoa (int n)) = Inr (int n)"
  by (rule ParseInt10_Itoa) simp

lemma ReadBulkString_frame:
  assumes "int (length a) + 2 < 2 ^ 63"
  shows "ReadBulkString (bulk_frame a @ rest) = (Inr a, rest)"
proof -
  let ?head = "[CHR ''$''] @ Itoa (int (length a))"
  have "last ?head \<notin> {CR, LF}" using last_Itoa_nat [of "length a"] by (simp add: Itoa_def)
  then have head: "TrimRight (?head @ CRLF) CRLF = ?head" by (intro TrimRight_crlf) simp
  have len: "wrap64 (int (length a) + 2) = int (length a) + 2" using assms by (simp add: wrap64_id)
  have full: "ReadFull (a @ CRLF @ rest) (nat (int (length a) + 2)) = (Inr (a @ CRLF), rest)"
    by (simp add: ReadFull_def nat_add_distrib)
  show ?thesis
    using head len full Atoi_length [of "length a"] assms
    by (simp add: ReadBulkString_def ReadString_bulk_head Let_def)
qed

text \<open>
  The peer's side of a command: the array header, then as many bulk strings as it announces,
  each read with \<^verbatim>\<open>ReadBulkString\<close>.
\<close>

fun read_bulks :: "nat \<Rightarrow> string \<Rightarrow> (resp_error + string list) \<times> string" where
  "read_bulks 0 r = (Inr [], r)"
| "read_bulks (Suc n) r =
     (case ReadBulkString r of
        (Inl e, r') \<Rightarrow> (Inl e, r')
      | (Inr a, r') \<Rightarrow>
          (case read_bulks n r' of
             (Inl e, r'') \<Rightarrow> (Inl e, r'')
           | (Inr as, r'') \<Rightarrow> (Inr (a # as), r'')))"

definition read_command :: "string \<Rightarrow> (resp_error + string list) \<times> string" where
  "read_command r =
     (case ReadString r of
        (Inl e, r') \<Rightarrow> (Inl (Io e), r')
      | (Inr line, r') \<Rightarrow>
          (case Atoi (tl (TrimRight line CRLF)) of
             Inl e \<Rightarrow> (Inl (InvalidBulkLength line e), r')
           | Inr n \<Rightarrow> read_bulks (nat n) r'))"

lemma read_bulks_frames:
  "(\<And>a. a \<in> set args \<Longrightarrow> int (length a) + 2 < 2 ^ 63) \<Longrightarrow>
     read_bulks (length args) (concat (map bulk_frame args) @ rest) = (Inr args, rest)"
proof (induction args)
  case Nil
  then show ?case by simp
next
  case (Cons a args)
  then show ?case by (simp add: ReadBulkString_frame)
qed

section \<open>Properties of the protocol codec\<close>

text \<open>
  C32: A command survives the wire. The frame \<^verbatim>\<open>WriteCommand\<close> sends on an accepting
  connection, read back as an array of bulk strings, gives exactly the arguments (binary-safe:
  CR, LF and empty arguments included), and the bytes that follow the frame are left unread.
\<close>

theorem WriteCommand_roundtrip:
  assumes "\<And>a. a \<in> set args \<Longrightarrow> int (length a) + 2 < 2 ^ 63" and "int (length args) < 2 ^ 63"
  shows "fst (WriteCommand True sent args) = None \<and>
         (\<exists>frame. snd (WriteCommand True sent args) = sent @ frame \<and>
            read_command (frame @ rest) = (Inr args, rest))"
proof -
  let ?head = "[CHR ''*''] @ Itoa (int (length args))"
  have "LF \<notin> set ?head"
    using all_digits_notin [of "Itoa (int (length args))" LF] by (simp add: digit_of_nondigits Itoa_def)
  then have line: "ReadString (command_frame args @ rest) =
      (Inr (?head @ CRLF), concat (map bulk_frame args) @ rest)"
    using ReadString_crlf [of ?head "concat (map bulk_frame args) @ rest"] by (simp add: command_frame_def)
  have "last ?head \<notin> {CR, LF}" using last_Itoa_nat [of "length args"] by (simp add: Itoa_def)
  then have "TrimRight (?head @ CRLF) CRLF = ?head" by (intro TrimRight_crlf) simp
  with line have "read_command (command_frame args @ rest) = (Inr args, rest)"
    using read_bulks_frames [OF assms(1), of args rest] Atoi_length [OF assms(2)]
    by (simp add: read_command_def)
  then show ?thesis by (auto simp: WriteCommand_def)
qed

theorem WriteCommand_roundtrip_witness:
  "\<exists>frame. snd (WriteCommand True [] [''AUTH'', [], [CR, LF]]) = [] @ frame \<and>
     read_command (frame @ ''+OK'') = (Inr [''AUTH'', [], [CR, LF]], ''+OK'')"
proof -
  have "int (length a) + 2 < 2 ^ 63" if "a \<in> set [''AUTH'', [], [CR, LF]]" for a
    using that by auto
  then show ?thesis
    using WriteCommand_roundtrip [of "[''AUTH'', [], [CR, LF]]" "[]" "''+OK''"] by auto
qed

text \<open>
  Reading one bulk string undoes its framing and stops at its end, so that the next reply
  on the connection is read from its first byte.
\<close>

theorem ReadBulkString_roundtrip:
  assumes "int (length a) + 2 < 2 ^ 63"
  shows "ReadBulkString (bulk_frame a @ rest) = (Inr a, rest)"
  by (rule ReadBulkString_frame [OF assms])

theorem ReadBulkString_roundtrip_witness:
  "ReadBulkString (bulk_frame ''role:master'' @ ''+OK'') = (Inr ''role:master'', ''+OK'')"
  by (rule ReadBulkString_roundtrip) simp

text \<open>
  \<^verbatim>\<open>ReadSimpleString\<close> decides by the first byte of the reply line alone: every
  simple string counts as success (not only \<^verbatim>\<open>+OK\<close>), an error reply returns the server's
  message, any other type and an empty line are errors, and exactly the line is consumed.
\<close>

theorem ReadSimpleString_by_first_byte:
  assumes "LF \<notin> set (c # msg)" and "last (c # msg) \<noteq> CR"
  shows "ReadSimpleString ((c # msg) @ CRLF @ rest) =
           ((if c = CHR ''+'' then None
             else if c = CHR ''-'' then Some (ServerError msg)
             else Some (UnexpectedResponse (c # msg))), rest) \<and>
         ReadSimpleString (CRLF @ rest) = (Some EmptyResponse, rest)"
proof -
  have "last (c # msg) \<in> set (c # msg)" by (rule last_in_set) simp
  with assms have "last (c # msg) \<notin> {CR, LF}" by auto
  then have "TrimRight ((c # msg) @ CRLF) CRLF = c # msg" by (intro TrimRight_crlf) simp
  moreover have "ReadString ((c # msg) @ CRLF @ rest) = (Inr ((c # msg) @ CRLF), rest)"
    using assms(1) by (intro ReadString_crlf)
  moreover have "TrimRight ([] @ CRLF) CRLF = []" by (intro TrimRight_crlf) simp
  moreover have "ReadString ([] @ CRLF @ rest) = (Inr ([] @ CRLF), rest)"
    by (intro ReadString_crlf) simp
  ultimately show ?thesis by (simp add: ReadSimpleString_def Let_def)
qed

theorem ReadSimpleString_by_first_byte_witness:
  "ReadSimpleString (''-ERR denied'' @ CRLF @ ''+OK'') = (Some (ServerError ''ERR denied''), ''+OK'')"
  using ReadSimpleString_by_first_byte [of "CHR ''-''" "''ERR denied''" "''+OK''"] by simp



end
