(* ===== verification/Monitor.thy ===== *)
theory Monitor
  imports Resp Parser Effect "HOL-Library.Sublist"
begin

text \<open>
  The MONITOR client of \<^verbatim>\<open>internal/monitor/client.go\<close>: it dials, authenticates, issues
  MONITOR, turns each line into an event for the output channel, and reconnects with exponential
  backoff, behind a gate that the role checker controls.

  One connection is described by a \<open>conn_env\<close>: the answers of the network, the bytes the
  server sends, and what the other goroutines do meanwhile. The channel is emptied by the
  dispatcher: before each send it has taken the number of events that the schedule says, and a
  send that finds the channel full without the drop policy waits either for one more event to be
  taken or for the context to be cancelled.
\<close>

section \<open>The client\<close>

record Options =
  o_Network :: string
  o_Address :: string
  o_Username :: string
  o_Password :: string
  o_DialTimeout :: int
  o_ReadTimeout :: int
  o_BackoffMin :: int
  o_BackoffMax :: int

record Client =
  mc_opts :: Options
  mc_out :: "Event chan"
  mc_report :: bool
  mc_metrics :: bool
  mc_drop :: bool
  mc_gate :: bool
  mc_dropped :: "64 word"
  mc_parseEr :: "64 word"
  mc_recon :: "64 word"

definition New_Client :: "Options \<Rightarrow> Event chan \<Rightarrow> bool \<Rightarrow> bool \<Rightarrow> Client" where
  "New_Client opts out report dropOnFull =
     (let o1 = (if o_BackoffMin opts \<le> 0 then opts\<lparr>o_BackoffMin := Second\<rparr> else opts);
          o2 = (if o_BackoffMax o1 < o_BackoffMin o1 then o1\<lparr>o_BackoffMax := 30 * Second\<rparr> else o1)
      in \<lparr>mc_opts = o2, mc_out = out, mc_report = report, mc_metrics = False, mc_drop = dropOnFull,
          mc_gate = False, mc_dropped = 0, mc_parseEr = 0, mc_recon = 0\<rparr>)"

definition SetGate :: "bool \<Rightarrow> Client \<Rightarrow> Client" where
  "SetGate installed c = c\<lparr>mc_gate := installed\<rparr>"

definition Client_SetMetricsSink :: "bool \<Rightarrow> Client \<Rightarrow> Client" where
  "Client_SetMetricsSink installed c = c\<lparr>mc_metrics := installed\<rparr>"

definition Client_QueueDepth :: "Client \<Rightarrow> nat" where
  "Client_QueueDepth c = length (ch_buf (mc_out c))"

definition Client_QueueCapacity :: "Client \<Rightarrow> nat" where
  "Client_QueueCapacity c = ch_cap (mc_out c)"

record Stats =
  st_Dropped :: "64 word"
  st_ParseErrors :: "64 word"
  st_Reconnections :: "64 word"

definition Client_Stats :: "Client \<Rightarrow> Stats" where
  "Client_Stats c =
     \<lparr>st_Dropped = mc_dropped c, st_ParseErrors = mc_parseEr c, st_Reconnections = mc_recon c\<rparr>"

definition redact :: "string \<Rightarrow> string" where
  "redact addr =
     (if CHR '':'' \<notin> set addr \<or> HasPrefix addr ''/'' then addr
      else case LastIndexByte addr (CHR '':'') of
             None \<Rightarrow> addr
           | Some idx \<Rightarrow> if idx = 0 then addr else take idx addr @ '':***'')"

section \<open>Errors\<close>

text \<open>
  A dial can fail because the context was cancelled or because the dial timeout passed. The
  \<^verbatim>\<open>net\<close> package documents that its timeout error matches
  \<^verbatim>\<open>context.DeadlineExceeded\<close> under \<^verbatim>\<open>errors.Is\<close>, and its cancellation error
  \<^verbatim>\<open>context.Canceled\<close>; a read deadline is a different error that matches neither.
\<close>

datatype dial_failure = DialRefused string | DialTimedOut | DialCanceled

datatype run_error =
    DialError dial_failure
  | SendAuth resp_error
  | AuthFailed resp_error
  | SendMonitor resp_error
  | MonitorRejected resp_error
  | ServerClosedConnection
  | ContextError
  | ReadError string
  | MonitorServerError string

fun is_context_error :: "run_error \<Rightarrow> bool" where
  "is_context_error (DialError DialTimedOut) = True"
| "is_context_error (DialError DialCanceled) = True"
| "is_context_error ContextError = True"
| "is_context_error e = False"

section \<open>Reading events\<close>

datatype read_end = EndEOF | EndError string

record conn_env =
  ce_dial :: "dial_failure option"
  ce_auth_sent :: bool
  ce_monitor_sent :: bool
  ce_stream :: string
  ce_end :: read_end
  ce_cancelled :: bool
  ce_sched :: "(nat \<times> bool) list"
  ce_took :: int

text \<open>The send of one event by itself: \<open>None\<close> when it has to wait.\<close>

definition send_event :: "Client \<Rightarrow> Event \<Rightarrow> (Client \<times> effect list) option" where
  "send_event c ev =
     (case ch_send (mc_out c) ev of
        Some q \<Rightarrow> Some (c\<lparr>mc_out := q\<rparr>, [])
      | None \<Rightarrow>
          if mc_drop c
          then Some (c\<lparr>mc_dropped := mc_dropped c + 1\<rparr>, to_sink (mc_metrics c) [CMonitorDropped])
          else None)"

text \<open>The dispatcher takes up to \<open>k\<close> events from the channel.\<close>

definition take_events :: "nat \<Rightarrow> Client \<Rightarrow> Event list \<times> Client" where
  "take_events k c =
     (take k (ch_buf (mc_out c)), c\<lparr>mc_out := (mc_out c)\<lparr>ch_buf := drop k (ch_buf (mc_out c))\<rparr>\<rparr>)"

text \<open>
  The send with what the dispatcher does around it: \<open>(k, cancelled)\<close> is its schedule, where the flag
  says that the select takes the case of the cancelled context, which it may do also when there is
  room. The first result is false when the context ended the send; then come the client, the events
  taken and the effects.
\<close>

definition emit_event ::
  "nat \<times> bool \<Rightarrow> Client \<Rightarrow> Event \<Rightarrow> bool \<times> Client \<times> Event list \<times> effect list" where
  "emit_event slot c ev =
     (let (taken, c1) = take_events (fst slot) c in
      if \<not> mc_drop c \<and> snd slot then (False, c1, taken, [])
      else
        case send_event c1 ev of
          Some (c2, es) \<Rightarrow> (True, c2, taken, es)
        | None \<Rightarrow>
            let q = ch_buf (mc_out c1) @ [ev]
            in (True, c1\<lparr>mc_out := (mc_out c1)\<lparr>ch_buf := tl q\<rparr>\<rparr>, taken @ [hd q], []))"

definition slot_of :: "(nat \<times> bool) list \<Rightarrow> nat \<times> bool" where
  "slot_of sched = (case sched of [] \<Rightarrow> (0, False) | s # _ \<Rightarrow> s)"

definition parse_failed :: "Client \<Rightarrow> string \<Rightarrow> Client \<times> effect list" where
  "parse_failed c line =
     (c\<lparr>mc_parseEr := mc_parseEr c + 1\<rparr>,
      to_sink (mc_metrics c) [CParseError] @
      (if mc_report c then [Report [(''stage'', ''monitor_parse''), (''line'', TrimSpace line)]] else []))"

definition read_error :: "conn_env \<Rightarrow> run_error" where
  "read_error env =
     (case ce_end env of
        EndEOF \<Rightarrow> ServerClosedConnection
      | EndError e \<Rightarrow> if ce_cancelled env then ContextError else ReadError e)"

lemma ReadString_shorter: "(Inr line, r') = ReadString r \<Longrightarrow> length r' < length r"
  using ReadString_ok [of r line r'] by (cases line) auto

text \<open>
  \<^verbatim>\<open>readLoop\<close>: each iteration takes the next line of the stream. The result is the error it
  returns, the client, the events the dispatcher took and the effects, in order.
\<close>

function readLoop ::
  "unicode \<Rightarrow> conn_env \<Rightarrow> (nat \<times> bool) list \<Rightarrow> string \<Rightarrow> Client \<Rightarrow>
     run_error \<times> Client \<times> Event list \<times> effect list" where
  "readLoop U env sched r c =
     (case ReadString r of
        (Inl e, _) \<Rightarrow> (read_error env, c, [], [])
      | (Inr line, r') \<Rightarrow>
          if line = [] \<or> hd line \<noteq> CHR ''+'' then
            (if HasPrefix line ''-'' then (MonitorServerError (TrimSpace (tl line)), c, [], [])
             else readLoop U env sched r' c)
          else
            (case Parse U line of
               Inl perr \<Rightarrow>
                 let (c1, es) = parse_failed c line;
                     (e, c2, evs, fs) = readLoop U env sched r' c1
                 in (e, c2, evs, es @ fs)
             | Inr ev \<Rightarrow>
                 let seen = to_sink (mc_metrics c) [CLastEvent (ev_Timestamp ev)];
                     (ok, c1, taken, es) = emit_event (slot_of sched) c ev
                 in if \<not> ok then (ContextError, c1, taken, seen @ es)
                    else
                      let (e, c2, evs, fs) = readLoop U env (tl sched) r' c1
                      in (e, c2, taken @ evs, seen @ es @ fs)))"
  by pat_completeness auto
termination
  by (relation "measure (\<lambda>(_, _, _, r, _). length r)") (auto dest: ReadString_shorter)

declare readLoop.simps [simp del]

section \<open>One connection\<close>

definition auth_step ::
  "conn_env \<Rightarrow> Options \<Rightarrow> string \<Rightarrow> (run_error + string) \<times> effect list" where
  "auth_step env opts r =
     (if o_Password opts = [] then (Inr r, [])
      else
        (case WriteCommand (ce_auth_sent env) [] (AuthArgs (o_Username opts) (o_Password opts)) of
           (Some e, _) \<Rightarrow> (Inl (SendAuth e), [])
         | (None, buf) \<Rightarrow>
             (case ReadSimpleString r of
                (Some e, _) \<Rightarrow> (Inl (AuthFailed e), [NetWrite buf])
              | (None, r') \<Rightarrow> (Inr r', [NetWrite buf]))))"

definition monitor_step :: "conn_env \<Rightarrow> string \<Rightarrow> (run_error + string) \<times> effect list" where
  "monitor_step env r =
     (case WriteCommand (ce_monitor_sent env) [] [''MONITOR''] of
        (Some e, _) \<Rightarrow> (Inl (SendMonitor e), [])
      | (None, buf) \<Rightarrow>
          (case ReadSimpleString r of
             (Some e, _) \<Rightarrow> (Inl (MonitorRejected e), [NetWrite buf])
           | (None, r') \<Rightarrow> (Inr r', [NetWrite buf])))"

definition runOnce ::
  "unicode \<Rightarrow> conn_env \<Rightarrow> Client \<Rightarrow> run_error option \<times> Client \<times> Event list \<times> effect list" where
  "runOnce U env c =
     (let dial = [NetDial (o_Network (mc_opts c)) (o_Address (mc_opts c)) (o_DialTimeout (mc_opts c)) 0]
      in case ce_dial env of
           Some f \<Rightarrow> (Some (DialError f), c, [], dial)
         | None \<Rightarrow>
             (case auth_step env (mc_opts c) (ce_stream env) of
                (Inl e, es) \<Rightarrow> (Some e, c, [], dial @ es @ [NetClose])
              | (Inr r, es) \<Rightarrow>
                  (case monitor_step env r of
                     (Inl e, fs) \<Rightarrow> (Some e, c, [], dial @ es @ fs @ [NetClose])
                   | (Inr r', fs) \<Rightarrow>
                       let (e, c', evs, gs) = readLoop U env (ce_sched env) r' c
                       in (Some e, c', evs,
                           dial @ es @ fs @ to_sink (mc_metrics c) [CSetMonitorConnected True] @ gs @
                           to_sink (mc_metrics c) [CSetMonitorConnected False, CMonitorSession (ce_took env)] @
                           [NetClose]))))"

section \<open>The reconnect loop\<close>

text \<open>
  What one iteration of \<^verbatim>\<open>Run\<close> meets: the context at its start, the gate, whether
  \<^verbatim>\<open>Wait\<close> returned without an error, the connection, the gate afterwards, and whether the
  context is cancelled during the backoff.
\<close>

record iter_env =
  ie_ctx_done :: bool
  ie_active :: bool
  ie_wait_ok :: bool
  ie_conn :: conn_env
  ie_active_after :: bool
  ie_ctx_done_backoff :: bool

datatype run_state = Looping int bool | Returned "run_error option"

definition next_backoff :: "Options \<Rightarrow> int \<Rightarrow> int" where
  "next_backoff opts backoff =
     (if wrap64 (backoff * 2) > o_BackoffMax opts then o_BackoffMax opts else wrap64 (backoff * 2))"

definition run_iter ::
  "unicode \<Rightarrow> iter_env \<Rightarrow> int \<Rightarrow> bool \<Rightarrow> Client \<Rightarrow> run_state \<times> Client \<times> Event list \<times> effect list" where
  "run_iter U env backoff first c =
     (if ie_ctx_done env then (Returned (Some ContextError), c, [], [])
      else if mc_gate c \<and> \<not> ie_active env \<and> \<not> ie_wait_ok env
      then (Returned (Some ContextError), c, [], [])
      else
        let backoff1 = (if mc_gate c \<and> \<not> ie_active env then o_BackoffMin (mc_opts c) else backoff);
            c1 = (if first then c else c\<lparr>mc_recon := mc_recon c + 1\<rparr>);
            es = (if first then [] else to_sink (mc_metrics c) [CReconnect]);
            (err, c2, evs, fs) = runOnce U (ie_conn env) c1
        in case err of
             None \<Rightarrow> (Returned None, c2, evs, es @ fs)
           | Some e \<Rightarrow>
               if is_context_error e then (Returned (Some e), c2, evs, es @ fs)
               else if mc_gate c \<and> \<not> ie_active_after env
               then (Looping backoff1 False, c2, evs, es @ fs)
               else
                 let gs = es @ fs @ (if mc_report c then [Report [(''stage'', ''monitor_connection'')]] else [])
                          @ [Sleep backoff1]
                 in if ie_ctx_done_backoff env then (Returned (Some ContextError), c2, evs, gs)
                    else (Looping (next_backoff (mc_opts c) backoff1) False, c2, evs, gs))"

fun run_from ::
  "unicode \<Rightarrow> iter_env list \<Rightarrow> run_state \<Rightarrow> Client \<Rightarrow> run_state \<times> Client \<times> Event list \<times> effect list" where
  "run_from U [] st c = (st, c, [], [])"
| "run_from U envs (Returned e) c = (Returned e, c, [], [])"
| "run_from U (env # envs) (Looping backoff first) c =
     (let (st1, c1, evs, es) = run_iter U env backoff first c;
          (st2, c2, evs', es') = run_from U envs st1 c1
      in (st2, c2, evs @ evs', es @ es'))"

definition Client_Run ::
  "unicode \<Rightarrow> iter_env list \<Rightarrow> Client \<Rightarrow> run_state \<times> Client \<times> Event list \<times> effect list" where
  "Client_Run U envs c = run_from U envs (Looping (o_BackoffMin (mc_opts c)) True) c"

section \<open>What a stream of lines amounts to\<close>

text \<open>
  The reference reading of a session: the complete lines of the stream, in order, up to an error
  line; of these the simple strings that parse. \<open>stream_of\<close> puts the line feeds back.
\<close>

definition stream_of :: "string list \<Rightarrow> string" where
  "stream_of ls = concat (map (\<lambda>l. l @ [LF]) ls)"

fun session_lines :: "string list \<Rightarrow> string list" where
  "session_lines [] = []"
| "session_lines (l # ls) =
     (if HasPrefix (l @ [LF]) ''-'' then []
      else if HasPrefix (l @ [LF]) ''+'' then (l @ [LF]) # session_lines ls
      else session_lines ls)"

definition session_events :: "unicode \<Rightarrow> string list \<Rightarrow> Event list" where
  "session_events U ls = concat (map (\<lambda>l. case Parse U l of Inl _ \<Rightarrow> [] | Inr ev \<Rightarrow> [ev]) (session_lines ls))"

definition session_failures :: "unicode \<Rightarrow> string list \<Rightarrow> nat" where
  "session_failures U ls = length (filter (\<lambda>l. isl (Parse U l)) (session_lines ls))"

definition session_error :: "conn_env \<Rightarrow> string list \<Rightarrow> run_error" where
  "session_error env ls =
     (case filter (\<lambda>l. HasPrefix (l @ [LF]) ''-'') ls of
        [] \<Rightarrow> read_error env
      | l # _ \<Rightarrow> MonitorServerError (TrimSpace (tl (l @ [LF]))))"

lemma HasPrefix_single: "HasPrefix (x # xs) [c] \<longleftrightarrow> x = c"
  by (auto simp: HasPrefix_def)

lemma ReadString_stream_of:
  "LF \<notin> set l \<Longrightarrow> ReadString (stream_of (l # ls) @ rest) = (Inr (l @ [LF]), stream_of ls @ rest)"
  using ReadString_line [of l "stream_of ls @ rest"] by (simp add: stream_of_def)

lemma ReadString_no_line: "LF \<notin> set rest \<Longrightarrow> ReadString rest = (Inl EOF, [])"
  using IndexByte_None_iff [of rest LF] by (simp add: ReadString_def)

abbreviation out_buf :: "Client \<Rightarrow> Event list" where
  "out_buf c \<equiv> ch_buf (mc_out c)"

text \<open>What a send leaves alone, and what becomes of the event.\<close>

definition same_client :: "Client \<Rightarrow> Client \<Rightarrow> bool" where
  "same_client c c' \<longleftrightarrow> mc_opts c' = mc_opts c \<and> mc_report c' = mc_report c \<and>
     mc_metrics c' = mc_metrics c \<and> mc_drop c' = mc_drop c \<and> mc_gate c' = mc_gate c \<and>
     mc_recon c' = mc_recon c \<and> ch_cap (mc_out c') = ch_cap (mc_out c)"

lemma same_client_refl [simp]: "same_client c c"
  by (simp add: same_client_def)

lemma same_client_trans: "same_client a b \<Longrightarrow> same_client b c \<Longrightarrow> same_client a c"
  by (simp add: same_client_def)

lemma emit_event_cases:
  assumes "emit_event slot c ev = (ok, c', taken, es)"
  shows "same_client c c' \<and> mc_parseEr c' = mc_parseEr c"
    and "ok \<Longrightarrow> taken @ out_buf c' = out_buf c @ [ev] \<and> mc_dropped c' = mc_dropped c \<or>
      mc_drop c \<and> taken @ out_buf c' = out_buf c \<and> mc_dropped c' = mc_dropped c + 1"
    and "\<not> ok \<Longrightarrow> \<not> mc_drop c \<and> snd slot \<and> taken @ out_buf c' = out_buf c \<and> mc_dropped c' = mc_dropped c"
proof -
  obtain taken0 c1 where t: "take_events (fst slot) c = (taken0, c1)" by (meson surj_pair)
  then have b: "taken0 @ out_buf c1 = out_buf c" "same_client c c1"
    "mc_dropped c1 = mc_dropped c" "mc_parseEr c1 = mc_parseEr c" "mc_drop c1 = mc_drop c"
    by (auto simp: take_events_def same_client_def)
  have q: "hd (q @ [ev]) # tl (q @ [ev]) = q @ [ev]" for q by simp
  show "same_client c c' \<and> mc_parseEr c' = mc_parseEr c"
    using assms b(2,4) by (auto simp: emit_event_def t send_event_def go_chan same_client_def Let_def
        split: option.splits if_splits)
  show "ok \<Longrightarrow> taken @ out_buf c' = out_buf c @ [ev] \<and> mc_dropped c' = mc_dropped c \<or>
      mc_drop c \<and> taken @ out_buf c' = out_buf c \<and> mc_dropped c' = mc_dropped c + 1"
    using assms q [of "out_buf c1"]
    by (auto simp: emit_event_def t send_event_def go_chan Let_def b(3,5) simp flip: b(1)
        split: option.splits if_splits)
  show "\<not> ok \<Longrightarrow> \<not> mc_drop c \<and> snd slot \<and> taken @ out_buf c' = out_buf c \<and> mc_dropped c' = mc_dropped c"
    using assms b by (auto simp: emit_event_def t send_event_def go_chan Let_def
        split: option.splits if_splits)
qed

text \<open>One iteration of the loop on a stream that starts with a complete line.\<close>

lemma readLoop_end: "LF \<notin> set rest \<Longrightarrow> readLoop U env sched rest c = (read_error env, c, [], [])"
  by (subst readLoop.simps) (simp add: ReadString_no_line)

lemma readLoop_skip:
  assumes "LF \<notin> set l" "\<not> HasPrefix (l @ [LF]) ''+''"
  shows "readLoop U env sched (stream_of (l # ls) @ rest) c =
    (if HasPrefix (l @ [LF]) ''-'' then (MonitorServerError (TrimSpace (tl (l @ [LF]))), c, [], [])
     else readLoop U env sched (stream_of ls @ rest) c)"
proof -
  have "hd (l @ [LF]) \<noteq> CHR ''+''" using assms(2) by (cases l) (simp_all add: HasPrefix_single)
  then show ?thesis by (subst readLoop.simps) (simp add: ReadString_stream_of assms(1) hd_append)
qed

lemma readLoop_plus:
  assumes "LF \<notin> set l" "HasPrefix (l @ [LF]) ''+''"
  shows "readLoop U env sched (stream_of (l # ls) @ rest) c =
    (case Parse U (l @ [LF]) of
       Inl perr \<Rightarrow>
         let (c1, es) = parse_failed c (l @ [LF]);
             (e, c2, evs, fs) = readLoop U env sched (stream_of ls @ rest) c1
         in (e, c2, evs, es @ fs)
     | Inr ev \<Rightarrow>
         let seen = to_sink (mc_metrics c) [CLastEvent (ev_Timestamp ev)];
             (ok, c1, taken, es) = emit_event (slot_of sched) c ev
         in if \<not> ok then (ContextError, c1, taken, seen @ es)
            else
              let (e, c2, evs, fs) = readLoop U env (tl sched) (stream_of ls @ rest) c1
              in (e, c2, taken @ evs, seen @ es @ fs))"
proof -
  have "hd (l @ [LF]) = CHR ''+''" using assms(2) by (cases l) (simp_all add: HasPrefix_single)
  then show ?thesis by (subst readLoop.simps) (simp add: ReadString_stream_of assms(1))
qed

text \<open>What a session makes of its lines: the error, the counters and the events passed on.\<close>

definition session_outcome ::
  "unicode \<Rightarrow> conn_env \<Rightarrow> string list \<Rightarrow> Client \<Rightarrow> run_error \<Rightarrow> Client \<Rightarrow> Event list \<Rightarrow> bool" where
  "session_outcome U env ls c e c' evs \<longleftrightarrow>
     e = session_error env ls \<and> same_client c c' \<and>
     mc_parseEr c' = mc_parseEr c + of_nat (session_failures U ls) \<and>
     mc_dropped c' + of_nat (length (evs @ out_buf c')) =
       mc_dropped c + of_nat (length (out_buf c @ session_events U ls)) \<and>
     subseq (evs @ out_buf c') (out_buf c @ session_events U ls) \<and>
     (\<not> mc_drop c \<longrightarrow> evs @ out_buf c' = out_buf c @ session_events U ls \<and> mc_dropped c' = mc_dropped c)"

lemma session_outcome_emit:
  assumes "taken @ out_buf c1 = out_buf c @ [ev] \<and> mc_dropped c1 = mc_dropped c \<or>
      mc_drop c \<and> taken @ out_buf c1 = out_buf c \<and> mc_dropped c1 = mc_dropped c + 1"
    and "session_outcome U env ls c1 e c' evs" "same_client c c1" "mc_parseEr c1 = mc_parseEr c"
    and eqs: "session_events U (l # ls) = ev # session_events U ls"
      "session_failures U (l # ls) = session_failures U ls" "session_error env (l # ls) = session_error env ls"
  shows "session_outcome U env (l # ls) c e c' (taken @ evs)"
proof -
  let ?E = "session_events U ls"
  have d: "mc_drop c1 = mc_drop c" and sc: "same_client c c'"
    using assms(2,3) same_client_trans by (auto simp: session_outcome_def same_client_def)
  have sub: "subseq (taken @ evs @ out_buf c') (taken @ out_buf c1 @ ?E)"
    unfolding subseq_append' using assms(2) unfolding session_outcome_def by blast
  have cnt: "mc_dropped c' + of_nat (length (evs @ out_buf c')) = mc_dropped c1 + of_nat (length (out_buf c1 @ ?E))"
    using assms(2) by (simp add: session_outcome_def)
  have "mc_dropped c' + of_nat (length ((taken @ evs) @ out_buf c')) =
      (mc_dropped c' + of_nat (length (evs @ out_buf c'))) + of_nat (length taken)" by simp
  also have "\<dots> = mc_dropped c1 + of_nat (length (taken @ out_buf c1)) + of_nat (length ?E)"
    unfolding cnt by simp
  finally have total: "mc_dropped c' + of_nat (length ((taken @ evs) @ out_buf c')) =
      mc_dropped c1 + of_nat (length (taken @ out_buf c1)) + of_nat (length ?E)" .
  from assms(1) show ?thesis
  proof
    assume a: "taken @ out_buf c1 = out_buf c @ [ev] \<and> mc_dropped c1 = mc_dropped c"
    then have all: "taken @ out_buf c1 @ ?E = out_buf c @ ev # ?E" by (metis append.assoc append_Cons append_Nil)
    have "mc_dropped c' + of_nat (length ((taken @ evs) @ out_buf c')) =
        mc_dropped c + of_nat (length (out_buf c @ ev # ?E))"
      unfolding total conjunct1 [OF a] conjunct2 [OF a] by simp
    then show ?thesis
      using assms(2,4) sc sub all a d unfolding session_outcome_def eqs by auto
  next
    assume a: "mc_drop c \<and> taken @ out_buf c1 = out_buf c \<and> mc_dropped c1 = mc_dropped c + 1"
    then have all: "taken @ out_buf c1 @ ?E = out_buf c @ ?E" by (metis append.assoc)
    have "mc_dropped c' + of_nat (length ((taken @ evs) @ out_buf c')) =
        mc_dropped c + of_nat (length (out_buf c @ ev # ?E))"
      unfolding total conjunct1 [OF conjunct2 [OF a]] conjunct2 [OF conjunct2 [OF a]] by simp
    moreover have "subseq (taken @ evs @ out_buf c') (out_buf c @ ev # ?E)"
      using sub unfolding all by (rule subseq_order.order_trans) (simp add: subseq_append' subseq_Cons')
    ultimately show ?thesis
      using assms(2,4) sc a unfolding session_outcome_def eqs by auto
  qed
qed

text \<open>
  A session that the context ended while it was sending: the events passed on are the first of those
  it would have passed on.
\<close>

definition session_cut :: "unicode \<Rightarrow> (nat \<times> bool) list \<Rightarrow> string list \<Rightarrow> Client \<Rightarrow> run_error \<Rightarrow> Client \<Rightarrow> Event list \<Rightarrow> bool" where
  "session_cut U sched ls c e c' evs \<longleftrightarrow>
     \<not> mc_drop c \<and> (\<exists>s\<in>set sched. snd s) \<and> e = ContextError \<and> mc_dropped c' = mc_dropped c \<and>
     strict_prefix (evs @ out_buf c') (out_buf c @ session_events U ls)"

lemma session_cut_later:
  assumes "session_cut U sched' ls c1 e c' evs" "same_client c c1" "mc_dropped c1 = mc_dropped c"
    and "taken @ out_buf c1 = out_buf c @ new" "session_events U (l # ls) = new @ session_events U ls"
    and "set sched' \<subseteq> set sched"
  shows "session_cut U sched (l # ls) c e c' (taken @ evs)"
proof -
  have "strict_prefix (taken @ evs @ out_buf c') (taken @ out_buf c1 @ session_events U ls)"
    using assms(1) by (simp add: session_cut_def strict_prefix_def)
  moreover have "taken @ out_buf c1 @ session_events U ls = out_buf c @ session_events U (l # ls)"
    unfolding assms(5) using assms(4) by (metis append.assoc)
  ultimately show ?thesis using assms(1,2,3,6) by (auto simp: session_cut_def same_client_def)
qed

text \<open>What one more line does to the reading of the rest.\<close>

lemma session_after_emit:
  assumes em: "emit_event (slot_of sched) c ev = (True, c1, taken, es1)"
    and ih: "session_outcome U env ls c1 e c' evs \<or> session_cut U (tl sched) ls c1 e c' evs"
    and ev: "session_events U (l # ls) = ev # session_events U ls"
      "session_failures U (l # ls) = session_failures U ls" "session_error env (l # ls) = session_error env ls"
  shows "session_outcome U env (l # ls) c e c' (taken @ evs) \<or> session_cut U sched (l # ls) c e c' (taken @ evs)"
  using ih
proof
  note c1 = emit_event_cases(1) [OF em]
  assume "session_outcome U env ls c1 e c' evs"
  then show ?thesis using session_outcome_emit [OF emit_event_cases(2) [OF em TrueI] _ _ _ ev] c1 by blast
next
  note c1 = emit_event_cases(1) [OF em]
  assume cut: "session_cut U (tl sched) ls c1 e c' evs"
  then have "\<not> mc_drop c" using c1 by (simp add: session_cut_def same_client_def)
  then have "taken @ out_buf c1 = out_buf c @ [ev]" "mc_dropped c1 = mc_dropped c"
    using emit_event_cases(2) [OF em TrueI] by blast+
  moreover have "set (tl sched) \<subseteq> set sched" by (cases sched) auto
  ultimately show ?thesis using session_cut_later [OF cut] c1 ev(1) by simp
qed

lemma session_after_failure:
  assumes "session_outcome U env ls (c\<lparr>mc_parseEr := mc_parseEr c + 1\<rparr>) e c' evs \<or>
      session_cut U sched ls (c\<lparr>mc_parseEr := mc_parseEr c + 1\<rparr>) e c' evs"
    and "session_events U (l # ls) = session_events U ls"
      "session_failures U (l # ls) = Suc (session_failures U ls)" "session_error env (l # ls) = session_error env ls"
  shows "session_outcome U env (l # ls) c e c' evs \<or> session_cut U sched (l # ls) c e c' evs"
  using assms(1)
proof
  assume "session_outcome U env ls (c\<lparr>mc_parseEr := mc_parseEr c + 1\<rparr>) e c' evs"
  then show ?thesis by (simp add: session_outcome_def same_client_def assms(2-4))
next
  assume "session_cut U sched ls (c\<lparr>mc_parseEr := mc_parseEr c + 1\<rparr>) e c' evs"
  then show ?thesis by (simp add: session_cut_def assms(2-4))
qed

lemma readLoop_cases:
  assumes "readLoop U env sched (stream_of ls @ rest) c = (e, c', evs, es)"
    and "\<forall>l\<in>set ls. LF \<notin> set l" and "LF \<notin> set rest"
  shows "session_outcome U env ls c e c' evs \<or> session_cut U sched ls c e c' evs"
  using assms
proof (induction ls arbitrary: sched c e c' evs es)
  case Nil
  then show ?case
    by (simp add: stream_of_def readLoop_end session_outcome_def session_error_def
        session_failures_def session_events_def)
next
  case (Cons l ls)
  then have l: "LF \<notin> set l" "\<forall>l\<in>set ls. LF \<notin> set l" by simp_all
  show ?case
  proof (cases "HasPrefix (l @ [LF]) ''+''")
    case False
    with Cons.IH [of sched c] Cons.prems l show ?thesis
      by (auto simp: readLoop_skip session_outcome_def session_cut_def session_error_def session_failures_def
          session_events_def split: if_splits)
  next
    case True
    then have neg: "\<not> HasPrefix (l @ [LF]) ''-''" by (cases l) (simp_all add: HasPrefix_single)
    note defs = session_events_def session_failures_def session_error_def
    show ?thesis
    proof (cases "Parse U (l @ [LF])")
      case (Inl perr)
      then have "readLoop U env sched (stream_of ls @ rest) (c\<lparr>mc_parseEr := mc_parseEr c + 1\<rparr>) =
          (e, c', evs, snd (snd (snd (readLoop U env sched (stream_of ls @ rest) (c\<lparr>mc_parseEr := mc_parseEr c + 1\<rparr>)))))"
        using Cons.prems(1) True l(1) by (auto simp: readLoop_plus parse_failed_def split: prod.splits)
      then show ?thesis
        using Cons.IH [OF _ l(2) Cons.prems(3)] True neg Inl by (intro session_after_failure) (auto simp: defs)
    next
      case (Inr ev)
      obtain ok c1 taken es1 where em: "emit_event (slot_of sched) c ev = (ok, c1, taken, es1)"
        by (metis prod_cases4)
      have ev: "session_events U (l # ls) = ev # session_events U ls"
        "session_failures U (l # ls) = session_failures U ls" "session_error env (l # ls) = session_error env ls"
        using True neg Inr by (simp_all add: defs)
      show ?thesis
      proof (cases ok)
        case False
        have "\<exists>s\<in>set sched. snd s" using emit_event_cases(3) [OF em False] by (cases sched) (auto simp: slot_of_def)
        moreover have "e = ContextError" "c' = c1" "evs = taken"
          using Cons.prems(1) em False Inr True l(1) by (simp_all add: readLoop_plus)
        ultimately show ?thesis
          using emit_event_cases(3) [OF em False] ev(1) by (auto simp: session_cut_def strict_prefix_def)
      next
        case ok: True
        obtain e1 c2 evs1 fs where r: "readLoop U env (tl sched) (stream_of ls @ rest) c1 = (e1, c2, evs1, fs)"
          by (metis prod_cases4)
        have res: "e = e1" "c' = c2" "evs = taken @ evs1"
          using Cons.prems(1) r em ok Inr True l(1) by (simp_all add: readLoop_plus)
        show ?thesis
          unfolding res using em ok Cons.IH [OF r l(2) Cons.prems(3)] ev by (intro session_after_emit) auto
      qed
    qed
  qed
qed

section \<open>What reaches the outside\<close>

fun connected_flags :: "reg_call list \<Rightarrow> bool list" where
  "connected_flags [] = []"
| "connected_flags (CSetMonitorConnected b # cs) = b # connected_flags cs"
| "connected_flags (c # cs) = connected_flags cs"

lemma connected_flags_append [simp]: "connected_flags (a @ b) = connected_flags a @ connected_flags b"
  by (induction a rule: connected_flags.induct) simp_all

text \<open>Effects of the read loop: it neither dials, sleeps nor touches the connection gauge.\<close>

definition loop_quiet :: "effect list \<Rightarrow> bool" where
  "loop_quiet es \<longleftrightarrow> dials es = [] \<and> sleeps es = [] \<and> connected_flags (metric_calls es) = [] \<and>
     CReconnect \<notin> set (metric_calls es)"

lemma loop_quiet_append [simp]: "loop_quiet (a @ b) \<longleftrightarrow> loop_quiet a \<and> loop_quiet b"
  by (auto simp: loop_quiet_def)

lemma emit_event_quiet: "emit_event slot c ev = (ok, c', taken, es) \<Longrightarrow> loop_quiet es"
  by (auto simp: emit_event_def send_event_def loop_quiet_def Let_def split: option.splits if_splits prod.splits)

lemma readLoop_frame:
  "readLoop U env sched r c = (e, c', evs, es) \<Longrightarrow> same_client c c' \<and> loop_quiet es"
proof (induction U env sched r c arbitrary: e c' evs es rule: readLoop.induct)
  case (1 U env sched r c)
  obtain res r' where rs: "ReadString r = (res, r')" by (meson surj_pair)
  show ?case
  proof (cases res)
    case (Inl x)
    with "1.prems" rs show ?thesis by (subst (asm) readLoop.simps) (auto simp: loop_quiet_def)
  next
    case (Inr line)
    show ?thesis
    proof (cases "line = [] \<or> hd line \<noteq> CHR ''+''")
      case True
      with "1.prems" "1.IH"(1) [OF rs [symmetric] _ True] Inr rs show ?thesis
        by (subst (asm) readLoop.simps) (auto simp: loop_quiet_def split: if_splits)
    next
      case False
      show ?thesis
      proof (cases "Parse U line")
        case (Inl perr)
        obtain e1 c2 evs1 fs where r: "readLoop U env sched r' (c\<lparr>mc_parseEr := mc_parseEr c + 1\<rparr>) =
          (e1, c2, evs1, fs)" by (metis prod_cases4)
        have ih: "same_client (c\<lparr>mc_parseEr := mc_parseEr c + 1\<rparr>) c2 \<and> loop_quiet fs"
          using "1.IH"(2) [OF rs [symmetric] Inr False Inl _ _ r] by (simp add: parse_failed_def)
        with "1.prems" Inl False Inr rs r show ?thesis
          by (subst (asm) readLoop.simps) (auto simp: parse_failed_def loop_quiet_def same_client_def)
      next
        case ev: (Inr ev)
        obtain ok c1 taken es1 where em: "emit_event (slot_of sched) c ev = (ok, c1, taken, es1)"
          by (metis prod_cases4)
        obtain e1 c2 evs1 fs where r: "readLoop U env (tl sched) r' c1 = (e1, c2, evs1, fs)"
          by (metis prod_cases4)
        have sn: "loop_quiet (to_sink (mc_metrics c) [CLastEvent (ev_Timestamp ev)])"
          by (simp add: loop_quiet_def)
        show ?thesis
        proof (cases ok)
          case True
          from "1.IH"(3) [OF rs [symmetric] Inr False ev refl em [symmetric] refl refl refl _ r]
          have ih: "same_client c1 c2 \<and> loop_quiet fs" using True by simp
          from "1.prems" rs Inr False ev em r True ih sn emit_event_quiet [OF em] emit_event_cases(1) [OF em]
          show ?thesis by (subst (asm) readLoop.simps) (auto intro: same_client_trans)
        next
          case nok: False
          from "1.prems" rs Inr False ev em nok sn emit_event_quiet [OF em] emit_event_cases(1) [OF em]
          show ?thesis by (subst (asm) readLoop.simps) auto
        qed
      qed
    qed
  qed
qed

lemma auth_step_quiet: "auth_step env opts r = (res, es) \<Longrightarrow> loop_quiet es \<and> metric_calls es = []"
  by (auto simp: auth_step_def loop_quiet_def split: if_splits prod.splits option.splits)

lemma monitor_step_quiet: "monitor_step env r = (res, es) \<Longrightarrow> loop_quiet es \<and> metric_calls es = []"
  by (auto simp: monitor_step_def loop_quiet_def split: if_splits prod.splits option.splits)

lemma runOnce_frame:
  assumes "runOnce U env c = (err, c', evs, es)"
  shows "same_client c c' \<and> err \<noteq> None \<and> length (dials es) = 1 \<and> sleeps es = [] \<and>
     CReconnect \<notin> set (metric_calls es) \<and>
     (connected_flags (metric_calls es) = [] \<or>
      connected_flags (metric_calls es) = [True, False])"
proof (cases "ce_dial env")
  case (Some f)
  with assms show ?thesis by (auto simp: runOnce_def)
next
  case None
  obtain ra es1 where a: "auth_step env (mc_opts c) (ce_stream env) = (ra, es1)" by (meson surj_pair)
  note aq = auth_step_quiet [OF a]
  show ?thesis
  proof (cases ra)
    case (Inl e)
    with assms None a aq show ?thesis by (auto simp: runOnce_def loop_quiet_def)
  next
    case (Inr r)
    obtain rm es2 where m: "monitor_step env r = (rm, es2)" by (meson surj_pair)
    note mq = monitor_step_quiet [OF m]
    show ?thesis
    proof (cases rm)
      case (Inl e)
      with assms None a aq Inr m mq show ?thesis by (auto simp: runOnce_def loop_quiet_def)
    next
      case r': (Inr r')
      obtain e c2 evs2 es3 where l: "readLoop U env (ce_sched env) r' c = (e, c2, evs2, es3)"
        by (metis prod_cases4)
      with assms None a aq Inr m mq r' readLoop_frame [OF l] show ?thesis
        by (auto simp: runOnce_def loop_quiet_def)
    qed
  qed
qed

section \<open>Properties of a connection\<close>

lemma runOnce_outcome:
  assumes "ce_dial env = None" "ce_auth_sent env" "ce_monitor_sent env"
    and "ce_stream env = (if o_Password (mc_opts c) = [] then [] else ''+OK'' @ CRLF) @ ''+OK'' @ CRLF @
           stream_of ls @ rest"
    and "\<forall>l\<in>set ls. LF \<notin> set l" and "LF \<notin> set rest"
    and "runOnce U env c = (err, c', evs, es)"
  shows "\<exists>e. err = Some e \<and> (session_outcome U env ls c e c' evs \<or> session_cut U (ce_sched env) ls c e c' evs)"
proof -
  have ok: "ReadSimpleString (''+OK'' @ CRLF @ t) = (None, t)" for t
    by (simp add: ReadSimpleString_def ReadString_def TrimRight_def)
  have a: "\<exists>fs. auth_step env (mc_opts c) (ce_stream env) = (Inr (''+OK'' @ CRLF @ stream_of ls @ rest), fs)"
    using assms(2,4) ok [of "''+OK'' @ CRLF @ stream_of ls @ rest"]
    by (auto simp: auth_step_def WriteCommand_def)
  have m: "\<exists>fs. monitor_step env (''+OK'' @ CRLF @ stream_of ls @ rest) = (Inr (stream_of ls @ rest), fs)"
    using assms(3) ok [of "stream_of ls @ rest"] by (simp add: monitor_step_def WriteCommand_def)
  obtain e c2 evs2 es2 where l: "readLoop U env (ce_sched env) (stream_of ls @ rest) c = (e, c2, evs2, es2)"
    by (metis prod_cases4)
  have "err = Some e" "c' = c2" "evs = evs2"
    using assms(1,7) a m l by (auto simp: runOnce_def)
  with readLoop_cases [OF l assms(5,6)] show ?thesis by simp
qed

text \<open>
  C11: A session delivers what the server sent. When the dial succeeds and the server accepts AUTH
  (if a password is set) and MONITOR, then for every sequence of complete lines that follows, in
  whatever chunks they arrive and whatever the dispatcher does meanwhile, the events passed on and
  still buffered are, after those that were buffered before, exactly the parsed simple-string lines
  in order; unparsable lines are counted and skipped, other frames skipped, and an error line ends
  the session with its text. With the drop policy some events may be missing, and the counter says
  how many. Without it, a cancelled context can cut the session short while it sends: then it returns
  the context's error, and what it passed on is a proper initial part of the same sequence.
\<close>

theorem runOnce_delivers:
  assumes "ce_dial env = None" "ce_auth_sent env" "ce_monitor_sent env"
    and "ce_stream env = (if o_Password (mc_opts c) = [] then [] else ''+OK'' @ CRLF) @ ''+OK'' @ CRLF @
           stream_of ls @ rest"
    and "\<forall>l\<in>set ls. LF \<notin> set l" and "LF \<notin> set rest"
    and "runOnce U env c = (err, c', evs, es)"
  shows "err = Some (session_error env ls) \<and>
      mc_parseEr c' = mc_parseEr c + of_nat (session_failures U ls) \<and>
      subseq (evs @ out_buf c') (out_buf c @ session_events U ls) \<and>
      mc_dropped c' + of_nat (length (evs @ out_buf c')) =
        mc_dropped c + of_nat (length (out_buf c @ session_events U ls)) \<and>
      (\<not> mc_drop c \<longrightarrow> evs @ out_buf c' = out_buf c @ session_events U ls \<and> mc_dropped c' = mc_dropped c) \<or>
    \<not> mc_drop c \<and> (\<exists>s\<in>set (ce_sched env). snd s) \<and> err = Some ContextError \<and> mc_dropped c' = mc_dropped c \<and>
      strict_prefix (evs @ out_buf c') (out_buf c @ session_events U ls)"
  using runOnce_outcome [OF assms] unfolding session_outcome_def session_cut_def by blast

text \<open>A client and a session for the examples: one command, one line that does not parse.\<close>

definition sample_opts :: Options where
  "sample_opts = \<lparr>o_Network = ''tcp'', o_Address = ''h:6379'', o_Username = [], o_Password = [],
     o_DialTimeout = 5 * Second, o_ReadTimeout = 0, o_BackoffMin = Second, o_BackoffMax = 5 * Second\<rparr>"

definition sample_client :: Client where
  "sample_client = Client_SetMetricsSink True (New_Client sample_opts (make_chan 2) True False)"

definition sample_lines :: "string list" where
  "sample_lines = [''+1583789991.940458 [0 127.0.0.1:54302] '' @ [DQ] @ ''ping'' @ [DQ, CR], ''+nonsense'' @ [CR]]"

definition sample_conn :: conn_env where
  "sample_conn = \<lparr>ce_dial = None, ce_auth_sent = True, ce_monitor_sent = True,
     ce_stream = ''+OK'' @ CRLF @ stream_of sample_lines, ce_end = EndEOF, ce_cancelled = False,
     ce_sched = [], ce_took = 0\<rparr>"

lemma sample_client_simps:
  "mc_opts sample_client = sample_opts" "mc_drop sample_client = False" "out_buf sample_client = []"
  "mc_parseEr sample_client = 0" "mc_metrics sample_client" "\<not> mc_gate sample_client"
  "mc_recon sample_client = 0"
  by (simp_all add: sample_client_def New_Client_def Client_SetMetricsSink_def sample_opts_def make_chan_def)

theorem runOnce_delivers_witness:
  "\<exists>c' evs es. runOnce ascii_only sample_conn sample_client = (Some ServerClosedConnection, c', evs, es) \<and>
     map ev_Command (evs @ out_buf c') = [''PING''] \<and> mc_parseEr c' = 1"
proof -
  obtain err c' evs es where r: "runOnce ascii_only sample_conn sample_client = (err, c', evs, es)"
    by (metis prod_cases4)
  have e: "map ev_Command (session_events ascii_only sample_lines) = [''PING'']"
    "session_failures ascii_only sample_lines = 1"
    "session_error sample_conn sample_lines = ServerClosedConnection" by code_simp+
  have "err = Some (session_error sample_conn sample_lines) \<and>
      mc_parseEr c' = mc_parseEr sample_client + of_nat (session_failures ascii_only sample_lines) \<and>
      evs @ out_buf c' = out_buf sample_client @ session_events ascii_only sample_lines"
    using runOnce_delivers [of sample_conn sample_client sample_lines "[]", OF _ _ _ _ _ _ r]
    by (simp add: sample_client_simps sample_conn_def sample_opts_def)
       (simp add: sample_lines_def)
  with r e show ?thesis by (simp add: sample_client_simps del: map_append)
qed

section \<open>Properties of the reconnect loop\<close>

text \<open>Every reachable iteration, in terms of one iteration.\<close>

lemma run_iter_cases:
  assumes "run_iter U env backoff first c = (st, c', evs, es)"
  obtains
    (stopped) "st = Returned (Some ContextError)" "c' = c" "evs = []" "es = []"
      "ie_ctx_done env \<or> mc_gate c \<and> \<not> ie_active env \<and> \<not> ie_wait_ok env"
  | (ran) e fs backoff1 where
      "\<not> ie_ctx_done env" "\<not> mc_gate c \<or> ie_active env \<or> ie_wait_ok env"
      "backoff1 = (if mc_gate c \<and> \<not> ie_active env then o_BackoffMin (mc_opts c) else backoff)"
      "runOnce U (ie_conn env) (if first then c else c\<lparr>mc_recon := mc_recon c + 1\<rparr>) = (Some e, c', evs, fs)"
      "es = (if first then [] else to_sink (mc_metrics c) [CReconnect]) @ fs @
        (if is_context_error e \<or> mc_gate c \<and> \<not> ie_active_after env then []
         else (if mc_report c then [Report [(''stage'', ''monitor_connection'')]] else []) @ [Sleep backoff1])"
      "st = (if is_context_error e then Returned (Some e)
        else if mc_gate c \<and> \<not> ie_active_after env then Looping backoff1 False
        else if ie_ctx_done_backoff env then Returned (Some ContextError)
        else Looping (next_backoff (mc_opts c) backoff1) False)"
proof (cases "ie_ctx_done env \<or> mc_gate c \<and> \<not> ie_active env \<and> \<not> ie_wait_ok env")
  case True
  with assms stopped show ?thesis by (auto simp: run_iter_def split: if_splits)
next
  case False
  let ?c1 = "if first then c else c\<lparr>mc_recon := mc_recon c + 1\<rparr>"
  obtain err c2 evs2 fs where r: "runOnce U (ie_conn env) ?c1 = (err, c2, evs2, fs)" by (metis prod_cases4)
  then obtain e where e: "err = Some e" using runOnce_frame by blast
  have res: "run_iter U env backoff first c =
     (let backoff1 = (if mc_gate c \<and> \<not> ie_active env then o_BackoffMin (mc_opts c) else backoff);
          es = (if first then [] else to_sink (mc_metrics c) [CReconnect])
      in if is_context_error e then (Returned (Some e), c2, evs2, es @ fs)
         else if mc_gate c \<and> \<not> ie_active_after env then (Looping backoff1 False, c2, evs2, es @ fs)
         else
           let gs = es @ fs @ (if mc_report c then [Report [(''stage'', ''monitor_connection'')]] else [])
                    @ [Sleep backoff1]
           in if ie_ctx_done_backoff env then (Returned (Some ContextError), c2, evs2, gs)
              else (Looping (next_backoff (mc_opts c) backoff1) False, c2, evs2, gs))"
    using False r e by (auto simp: run_iter_def Let_def)
  show ?thesis
    by (rule ran [of "if mc_gate c \<and> \<not> ie_active env then o_BackoffMin (mc_opts c) else backoff" e fs])
       (use False assms r e in \<open>auto simp: res Let_def split: if_splits\<close>)
qed

definition same_setup :: "Client \<Rightarrow> Client \<Rightarrow> bool" where
  "same_setup c c' \<longleftrightarrow> mc_opts c' = mc_opts c \<and> mc_report c' = mc_report c \<and>
     mc_metrics c' = mc_metrics c \<and> mc_drop c' = mc_drop c \<and> mc_gate c' = mc_gate c"

lemma run_iter_facts:
  assumes "run_iter U env backoff first c = (st, c', evs, es)"
  shows "same_setup c c' \<and> (\<forall>b. st \<noteq> Looping b True) \<and> length (dials es) \<le> 1 \<and>
    mc_recon c' = mc_recon c + of_nat (if first then 0 else length (dials es)) \<and>
    count_list (metric_calls es) CReconnect = (if first \<or> \<not> mc_metrics c then 0 else length (dials es)) \<and>
    (connected_flags (metric_calls es) = [] \<or> connected_flags (metric_calls es) = [True, False]) \<and>
    (dials es = [] \<longrightarrow> st = Returned (Some ContextError))"
  using assms
proof (cases rule: run_iter_cases)
  case stopped
  then show ?thesis by (simp add: same_setup_def)
next
  case (ran e fs backoff1)
  have f: "same_client (if first then c else c\<lparr>mc_recon := mc_recon c + 1\<rparr>) c'" "length (dials fs) = 1"
    "count_list (metric_calls fs) CReconnect = 0"
    "connected_flags (metric_calls fs) = [] \<or> connected_flags (metric_calls fs) = [True, False]"
    using runOnce_frame [OF ran(4)] by (simp_all add: count_list_0_iff)
  then have "same_setup c c'" "mc_recon c' = mc_recon c + of_nat (if first then 0 else 1)"
    by (auto simp: same_client_def same_setup_def split: if_splits)
  with f ran(6) show ?thesis unfolding ran(5) by auto
qed

text \<open>The session flags of a whole run: any number of sessions, each opened and closed.\<close>

fun paired :: "bool list \<Rightarrow> bool" where
  "paired [] = True"
| "paired [x] = False"
| "paired (x # y # xs) = (x \<and> \<not> y \<and> paired xs)"

definition pending_first :: "run_state \<Rightarrow> nat" where
  "pending_first st = (case st of Looping b f \<Rightarrow> if f then 1 else 0 | Returned e \<Rightarrow> 0)"

lemma run_from_counts:
  "run_from U envs st c = (st', c', evs, es) \<Longrightarrow>
     same_setup c c' \<and> paired (connected_flags (metric_calls es)) \<and>
     mc_recon c' = mc_recon c + of_nat (length (dials es) - pending_first st) \<and>
     (mc_metrics c \<longrightarrow> count_list (metric_calls es) CReconnect = length (dials es) - pending_first st)"
proof (induction U envs st c arbitrary: st' c' evs es rule: run_from.induct)
  case (1 U st c)
  then show ?case by (auto simp: same_setup_def)
next
  case (2 U env envs e c)
  then show ?case by (auto simp: same_setup_def)
next
  case (3 U env envs backoff first c)
  obtain st1 c1 evs1 es1 where i: "run_iter U env backoff first c = (st1, c1, evs1, es1)" by (metis prod_cases4)
  obtain st2 c2 evs2 es2 where r: "run_from U envs st1 c1 = (st2, c2, evs2, es2)" by (metis prod_cases4)
  have eq: "c' = c2" "es = es1 @ es2" using 3(2) i r by simp_all
  note f = run_iter_facts [OF i]
  from "3.IH" [OF i [symmetric] refl refl refl r]
  have ih: "same_setup c1 c2" "paired (connected_flags (metric_calls es2))"
    "mc_recon c2 = mc_recon c1 + of_nat (length (dials es2) - pending_first st1)"
    "mc_metrics c1 \<longrightarrow> count_list (metric_calls es2) CReconnect = length (dials es2) - pending_first st1"
    by blast+
  have p: "pending_first st1 = 0" using f by (auto simp: pending_first_def split: run_state.splits)
  have "es2 = []" if "dials es1 = []"
    using that f r by (cases envs) auto
  with f p ih show ?case unfolding eq
    by (cases "dials es1") (auto simp: same_setup_def pending_first_def)
qed

text \<open>
  C12: The connection state is published truthfully. However many connections are attempted and
  however they end, the client reports them to the \<^verbatim>\<open>monitor_connected\<close> gauge in pairs, True
  when MONITOR was accepted and False when that session ended: between sessions the gauge is never
  left at True. The reconnect counter and its metric count all connection attempts but the first.
\<close>

theorem Client_Run_accounting:
  assumes "Client_Run U envs c = (st, c', evs, es)" and "mc_metrics c"
  shows "paired (connected_flags (metric_calls es)) \<and>
    mc_recon c' = mc_recon c + of_nat (length (dials es) - 1) \<and>
    count_list (metric_calls es) CReconnect = length (dials es) - 1"
  using run_from_counts [OF assms(1) [unfolded Client_Run_def]] assms(2) by (simp add: pending_first_def)

definition sample_iter :: "dial_failure option \<Rightarrow> iter_env" where
  "sample_iter d = \<lparr>ie_ctx_done = False, ie_active = True, ie_wait_ok = True,
     ie_conn = sample_conn\<lparr>ce_dial := d\<rparr>, ie_active_after = True, ie_ctx_done_backoff = False\<rparr>"

theorem Client_Run_accounting_witness:
  "\<exists>st c' evs es. Client_Run ascii_only [sample_iter None, sample_iter None] sample_client = (st, c', evs, es) \<and>
     paired (connected_flags (metric_calls es)) \<and> mc_recon c' = 1"
proof -
  obtain st c' evs es where r:
    "Client_Run ascii_only [sample_iter None, sample_iter None] sample_client = (st, c', evs, es)"
    by (metis prod_cases4)
  have "(case Client_Run ascii_only [sample_iter None, sample_iter None] sample_client of
      (st, c', evs, es) \<Rightarrow> length (dials es)) = 2" by code_simp
  then have "length (dials es) = 2" by (simp add: r)
  with Client_Run_accounting [OF r sample_client_simps(5)] r show ?thesis
    by (simp add: sample_client_simps)
qed

section \<open>Backoff\<close>

lemma next_backoff_iter:
  assumes "0 < o_BackoffMin opts" "o_BackoffMin opts \<le> o_BackoffMax opts" "o_BackoffMax opts < 2 ^ 62"
  shows "(next_backoff opts ^^ i) (o_BackoffMin opts) = min (o_BackoffMax opts) (o_BackoffMin opts * 2 ^ i)"
proof (induction i)
  case 0
  then show ?case using assms(2) by simp
next
  case (Suc i)
  let ?b = "min (o_BackoffMax opts) (o_BackoffMin opts * 2 ^ i)"
  have "0 < o_BackoffMin opts * 2 ^ i" using assms(1) by simp
  then have "0 < ?b" "?b \<le> o_BackoffMax opts" using assms(1,2) by auto
  then have "wrap64 (?b * 2) = ?b * 2" using assms(3) by (intro wrap64_id) auto
  then have "next_backoff opts ?b = min (o_BackoffMax opts) (?b * 2)" by (simp add: next_backoff_def)
  also have "\<dots> = min (o_BackoffMax opts) (o_BackoffMin opts * 2 ^ Suc i)"
    using \<open>0 < o_BackoffMin opts * 2 ^ i\<close> assms by (auto simp: min_def)
  finally show ?case using Suc.IH by simp
qed

lemma run_from_sleeps:
  "run_from U envs (Looping b first) c = (st', c', evs, es) \<Longrightarrow> \<not> mc_gate c \<Longrightarrow>
     sleeps es = map (\<lambda>i. (next_backoff (mc_opts c) ^^ i) b) [0..<length (sleeps es)]"
proof (induction envs arbitrary: b first c st' c' evs es)
  case Nil
  then show ?case by simp
next
  case (Cons env envs)
  obtain st1 c1 evs1 es1 where i: "run_iter U env b first c = (st1, c1, evs1, es1)" by (metis prod_cases4)
  obtain st2 c2 evs2 es2 where r: "run_from U envs st1 c1 = (st2, c2, evs2, es2)" by (metis prod_cases4)
  have es: "es = es1 @ es2" using Cons.prems(1) i r by simp
  have kept: "mc_opts c1 = mc_opts c" "\<not> mc_gate c1"
    using run_iter_facts [OF i] Cons.prems(2) by (auto simp: same_setup_def)
  have alts: "sleeps es1 = [] \<and> (\<exists>e. st1 = Returned e) \<or> sleeps es1 = [b] \<and> (\<exists>e. st1 = Returned e) \<or>
      sleeps es1 = [b] \<and> st1 = Looping (next_backoff (mc_opts c) b) False"
    using i
  proof (cases rule: run_iter_cases)
    case stopped
    then show ?thesis by simp
  next
    case (ran e fs backoff1)
    have "sleeps fs = []" using runOnce_frame [OF ran(4)] by blast
    then show ?thesis using ran Cons.prems(2) by auto
  qed
  have stop: "es2 = []" if "\<exists>e. st1 = Returned e" using that r by (cases envs) auto
  show ?case
  proof (cases "st1 = Looping (next_backoff (mc_opts c) b) False")
    case True
    with alts have "sleeps es1 = [b]" by auto
    moreover have "sleeps es2 = map (\<lambda>i. (next_backoff (mc_opts c) ^^ i) (next_backoff (mc_opts c) b)) [0..<length (sleeps es2)]"
      using Cons.IH [of "next_backoff (mc_opts c) b" False c1] r True kept by simp
    ultimately show ?thesis unfolding es
      by (simp add: map_upt_Suc funpow_Suc_right del: funpow.simps upt_Suc)
  next
    case False
    with alts stop es show ?thesis by auto
  qed
qed



text \<open>
  C14: The client ends only for reasons it takes for a cancelled context, never with a nil error;
  every other failure leads to another attempt. But the test takes a dial timeout for one too: a
  server that does not answer within \<^verbatim>\<open>DialTimeout\<close> ends the client for good although the
  context is live, while a refused connection is retried.
\<close>

theorem Client_Run_returns:
  "(\<forall>envs st c c' evs es. Client_Run U envs c = (Returned st, c', evs, es) \<longrightarrow>
      (\<exists>e. st = Some e \<and> is_context_error e)) \<and>
   (\<forall>env b first c c' evs es st d. \<not> ie_ctx_done env \<and> \<not> ie_ctx_done_backoff env \<and> \<not> mc_gate c \<and>
      ce_dial (ie_conn env) = Some d \<and> run_iter U env b first c = (st, c', evs, es) \<longrightarrow>
      (case d of DialRefused msg \<Rightarrow> st = Looping (next_backoff (mc_opts c) b) False
       | _ \<Rightarrow> st = Returned (Some (DialError d))))"
proof -
  have step: "\<exists>e. st = Some e \<and> is_context_error e"
    if "run_iter U env b first c = (Returned st, c', evs, es)" for env b first c st c' evs es
    using that by (cases rule: run_iter_cases) (auto split: if_splits)
  have run: "\<exists>e. st = Some e \<and> is_context_error e"
    if "run_from U envs (Looping b first) c = (Returned st, c', evs, es)" for envs b first c st c' evs es
    using that
  proof (induction envs arbitrary: b first c c' evs es)
    case Nil
    then show ?case by simp
  next
    case (Cons env envs)
    obtain st1 c1 evs1 es1 where i: "run_iter U env b first c = (st1, c1, evs1, es1)" by (metis prod_cases4)
    obtain st2 c2 evs2 es2 where r: "run_from U envs st1 c1 = (st2, c2, evs2, es2)" by (metis prod_cases4)
    have "st2 = Returned st" using Cons.prems i r by simp
    then show ?case
    proof (cases st1)
      case (Looping b1 f1)
      with Cons.IH r \<open>st2 = Returned st\<close> show ?thesis by blast
    next
      case (Returned e)
      with r have "st2 = Returned e" by (cases envs) auto
      with \<open>st2 = Returned st\<close> Returned i step show ?thesis by blast
    qed
  qed
  have dial: "case d of DialRefused msg \<Rightarrow> st = Looping (next_backoff (mc_opts c) b) False
       | _ \<Rightarrow> st = Returned (Some (DialError d))"
    if "\<not> ie_ctx_done env" "\<not> ie_ctx_done_backoff env" "\<not> mc_gate c" "ce_dial (ie_conn env) = Some d"
      "run_iter U env b first c = (st, c', evs, es)" for env b first c st c' evs es d
    using that(5)
  proof (cases rule: run_iter_cases)
    case stopped
    with that show ?thesis by simp
  next
    case (ran e fs backoff1)
    have "e = DialError d" using ran(4) that(4) by (simp add: runOnce_def)
    with ran(3,6) that show ?thesis by (cases d) auto
  qed
  show ?thesis using run dial unfolding Client_Run_def by blast
qed

theorem Client_Run_returns_witness:
  "\<exists>c' evs es. run_iter ascii_only (sample_iter (Some DialTimedOut)) Second True sample_client =
     (Returned (Some (DialError DialTimedOut)), c', evs, es)"
proof -
  obtain st c' evs es where r:
    "run_iter ascii_only (sample_iter (Some DialTimedOut)) Second True sample_client = (st, c', evs, es)"
    by (metis prod_cases4)
  from conjunct2 [OF Client_Run_returns [of ascii_only], rule_format,
      of "sample_iter (Some DialTimedOut)" sample_client DialTimedOut Second True st c' evs es] r
  show ?thesis by (simp add: sample_iter_def sample_client_simps)
qed

text \<open>
  The gate is respected. With a gate installed, an iteration dials only if the gate was active
  when asked or \<^verbatim>\<open>Wait\<close> returned without an error, and otherwise does nothing and returns; a
  session that ends while the gate is inactive is followed by no pause and no change of the
  backoff, so that the client goes back to waiting at once; and leaving \<^verbatim>\<open>Wait\<close> resets the
  backoff to its minimum.
\<close>

lemma run_iter_gated:
  assumes "run_iter U env backoff first c = (st, c', evs, es)" and "mc_gate c"
  shows "(dials es \<noteq> [] \<longrightarrow> ie_active env \<or> ie_wait_ok env) \<and>
    (\<not> ie_active env \<and> \<not> ie_wait_ok env \<longrightarrow> st = Returned (Some ContextError) \<and> es = []) \<and>
    (\<not> ie_active_after env \<longrightarrow> sleeps es = [] \<and>
      (\<forall>b f. st = Looping b f \<longrightarrow> b = (if ie_active env then backoff else o_BackoffMin (mc_opts c)))) \<and>
    (\<not> ie_active env \<longrightarrow> set (sleeps es) \<subseteq> {o_BackoffMin (mc_opts c)})"
  using assms(1)
proof (cases rule: run_iter_cases)
  case stopped
  then show ?thesis by simp
next
  case (ran e fs backoff1)
  have "sleeps fs = []" using runOnce_frame [OF ran(4)] by blast
  with ran assms(2) show ?thesis by auto
qed

section \<open>Addresses in the log\<close>

text \<open>
  \<^verbatim>\<open>redact\<close> replaces what follows the last colon of an address, the port; the host
  stays readable, and a unix socket path is not changed.
\<close>

theorem redact_masks_port:
  assumes "host \<noteq> []" "\<not> HasPrefix host ''/''" "CHR '':'' \<notin> set port"
  shows "redact (host @ '':'' @ port) = host @ '':***'' \<and> redact (''/'' @ path) = ''/'' @ path"
proof -
  have "LastIndexByte (host @ CHR '':'' # port) (CHR '':'') = Some (length host)"
    using LastIndexByte_sep [of "CHR '':''" port host] assms(3) by simp
  moreover have "\<not> HasPrefix (host @ CHR '':'' # port) ''/''"
    using assms(1,2) by (cases host) (simp_all add: HasPrefix_single)
  moreover have "HasPrefix (CHR ''/'' # path) ''/''" by (simp add: HasPrefix_single)
  ultimately show ?thesis using assms(1) by (simp add: redact_def)
qed

theorem redact_masks_port_witness: "redact ''10.0.0.5:6379'' = ''10.0.0.5:***''"
  using redact_masks_port [of "''10.0.0.5''" "''6379''"] by (simp add: HasPrefix_def)

section \<open>The queue contract\<close>

interpretation client_queue: drop_queue "\<lambda>c ev. map_option fst (send_event c ev)"
  out_buf Client_QueueCapacity mc_drop mc_dropped
  by unfold_locales
     (auto simp: send_event_def Client_QueueCapacity_def ch_send_def ch_room_def split: if_splits)

text \<open>
  A burst of parsed events on the client's own channel: with the drop policy the read loop
  never waits, the channel keeps the oldest events up to its capacity and the counter counts the
  rest; without it nothing is dropped.
\<close>

theorem client_burst:
  assumes "Client_QueueDepth c \<le> Client_QueueCapacity c"
  shows "(mc_drop c \<longrightarrow> (\<exists>c'. submit_all (\<lambda>c ev. map_option fst (send_event c ev)) c evs = Some c' \<and>
            out_buf c' = out_buf c @ take (Client_QueueCapacity c - Client_QueueDepth c) evs \<and>
            mc_dropped c' = mc_dropped c + of_nat (length evs - (Client_QueueCapacity c - Client_QueueDepth c)))) \<and>
         (\<not> mc_drop c \<longrightarrow> (case submit_all (\<lambda>c ev. map_option fst (send_event c ev)) c evs of
            None \<Rightarrow> Client_QueueCapacity c < Client_QueueDepth c + length evs
          | Some c' \<Rightarrow> out_buf c' = out_buf c @ evs \<and> mc_dropped c' = mc_dropped c))"
  using client_queue.submit_all_drop [of c evs] client_queue.submit_all_block [of c evs] assms
  unfolding Client_QueueDepth_def by blast

theorem client_burst_witness:
  "case submit_all (\<lambda>c ev. map_option fst (send_event c ev)) sample_client [sample_event ''GET'' []] of
     None \<Rightarrow> False | Some c' \<Rightarrow> out_buf c' = [sample_event ''GET'' []]"
proof -
  have q: "Client_QueueDepth sample_client = 0" "Client_QueueCapacity sample_client = 2"
    by (simp_all add: Client_QueueDepth_def Client_QueueCapacity_def sample_client_def New_Client_def
        Client_SetMetricsSink_def make_chan_def Let_def)
  from client_burst [of sample_client "[sample_event ''GET'' []]"] show ?thesis
    unfolding q sample_client_simps by (auto split: option.splits)
qed

end
