(* ===== verification/Gate.thy ===== *)
theory Gate
  imports Main
begin

text \<open>
  The interface \<^verbatim>\<open>Gate\<close> of \<^verbatim>\<open>internal/monitor/client.go\<close>, as the MONITOR client
  relies on it: a state that is active or not, changed by the updates of its provider, and
  subscriptions whose channel is signalled when that changes. The client's watcher goroutine
  subscribes when a connection is open, waits for the signal and then asks whether the gate is
  still active. The provider is the role checker.
\<close>

locale gate =
  fixes inv :: "'s \<Rightarrow> bool"
    and active :: "'s \<Rightarrow> bool"
    and subscribe :: "'s \<Rightarrow> 'ch \<times> 's"
    and live :: "'s \<Rightarrow> 'ch \<Rightarrow> bool"
    and signal :: "'s \<Rightarrow> 'ch \<Rightarrow> bool"
    and update :: "'e \<Rightarrow> 's \<Rightarrow> 's"
  assumes update_inv: "inv s \<Longrightarrow> inv (update e s)"
    and update_live: "live s ch \<Longrightarrow> live (update e s) ch"
    and update_keeps: "inv s \<Longrightarrow> signal s ch \<Longrightarrow> signal (update e s) ch"
    and update_signals: "inv s \<Longrightarrow> live s ch \<Longrightarrow> active (update e s) \<noteq> active s \<Longrightarrow>
      signal (update e s) ch"
    and subscribe_inv: "inv s \<Longrightarrow> inv (snd (subscribe s))"
    and subscribe_live: "inv s \<Longrightarrow> live (snd (subscribe s)) (fst (subscribe s))"
    and subscribe_silent: "inv s \<Longrightarrow> \<not> signal (snd (subscribe s)) (fst (subscribe s))"
    and subscribe_active: "active (snd (subscribe s)) = active s"
begin

lemma updates_inv: "inv s \<Longrightarrow> inv (fold update es s)"
  by (induction es arbitrary: s) (simp_all add: update_inv)

lemma updates_signal: "inv s \<Longrightarrow> signal s ch \<Longrightarrow> signal (fold update es s) ch"
  by (induction es arbitrary: s) (simp_all add: update_inv update_keeps)

text \<open>A live subscription that was not signalled proves that the gate has not moved since.\<close>

lemma no_signal_no_change:
  "inv s \<Longrightarrow> live s ch \<Longrightarrow> \<not> signal (fold update es s) ch \<Longrightarrow> active (fold update es s) = active s"
proof (induction es arbitrary: s)
  case Nil
  then show ?case by simp
next
  case (Cons e es)
  have "\<not> signal (update e s) ch"
    using Cons.prems updates_signal [of "update e s" ch es] update_inv by auto
  then have "active (update e s) = active s" using Cons.prems update_signals by blast
  with Cons.IH [of "update e s"] Cons.prems update_inv update_live show ?case by simp
qed

text \<open>So a watcher that subscribed while the gate was active is woken before it can miss a change.\<close>

lemma watcher_woken:
  assumes "inv s" "active s" "\<not> active (fold update es (snd (subscribe s)))"
  shows "signal (fold update es (snd (subscribe s))) (fst (subscribe s))"
  using no_signal_no_change [OF subscribe_inv subscribe_live, OF assms(1,1), of es] assms(2,3)
    subscribe_active by blast

end

end
