(* ===== verification/Role.thy ===== *)
theory Role
  imports Resp Effect Gate
begin

text \<open>
  The role checker of \<^verbatim>\<open>internal/role/role.go\<close>: a periodic probe of
  \<^verbatim>\<open>INFO replication\<close>, the current role, and the subscriptions through which the MONITOR
  client learns of changes. A subscription is a channel with one slot: \<open>ck_waiters\<close> holds, in
  order, the identity of each registered channel and whether its slot is full. The three atomic
  updates of a successful probe are definitions of their own, so that they can be interleaved with
  the steps of \<^verbatim>\<open>Wait\<close>.
\<close>

section \<open>The replication role\<close>

abbreviation RoleMaster :: string where "RoleMaster \<equiv> ''master''"
abbreviation RoleReplica :: string where "RoleReplica \<equiv> ''replica''"
abbreviation RoleUnknown :: string where "RoleUnknown \<equiv> ''unknown''"

datatype role_error =
    RoleDial string
  | RoleAuth resp_error
  | RoleInfo resp_error
  | RoleInfoRead resp_error
  | RoleNotFound

fun role_of_lines :: "string list \<Rightarrow> role_error + string" where
  "role_of_lines [] = Inl RoleNotFound"
| "role_of_lines (line # lines) =
     (if \<not> HasPrefix line ''role:'' then role_of_lines lines
      else
        let v = TrimSpace (TrimPrefix line ''role:'') in
        if v = ''master'' then Inr RoleMaster
        else if v = ''slave'' \<or> v = ''replica'' then Inr RoleReplica
        else Inr v)"

definition parseRoleFromInfo :: "string \<Rightarrow> role_error + string" where
  "parseRoleFromInfo body = role_of_lines (Split body CRLF)"

section \<open>The checker\<close>

record RoleOptions =
  ro_Network :: string
  ro_Address :: string
  ro_Username :: string
  ro_Password :: string
  ro_DialTimeout :: int
  ro_ReadTimeout :: int
  ro_Interval :: int
  ro_AllowReplica :: bool

record Checker =
  ck_opts :: RoleOptions
  ck_metrics :: bool
  ck_isMaster :: bool
  ck_current :: string
  ck_waiters :: "(nat \<times> bool) list"
  ck_fresh :: nat
  ck_probeErr :: "role_error option"

definition New_Checker :: "RoleOptions \<Rightarrow> bool \<Rightarrow> Checker" where
  "New_Checker opts metrics =
     \<lparr>ck_opts = opts\<lparr>
        ro_Interval := (if ro_Interval opts \<le> 0 then 5 * Second else ro_Interval opts),
        ro_DialTimeout := (if ro_DialTimeout opts \<le> 0 then 3 * Second else ro_DialTimeout opts),
        ro_ReadTimeout := (if ro_ReadTimeout opts \<le> 0 then 3 * Second else ro_ReadTimeout opts)\<rparr>,
      ck_metrics = metrics, ck_isMaster = False, ck_current = RoleUnknown, ck_waiters = [],
      ck_fresh = 0, ck_probeErr = None\<rparr>"

abbreviation Checker_Role :: "Checker \<Rightarrow> string" where
  "Checker_Role c \<equiv> ck_current c"

definition IsMaster :: "Checker \<Rightarrow> bool" where
  "IsMaster c = (if ro_AllowReplica (ck_opts c) then True else ck_isMaster c)"

definition IsActive :: "Checker \<Rightarrow> bool" where
  "IsActive c = IsMaster c"

definition subscribe :: "Checker \<Rightarrow> nat \<times> Checker" where
  "subscribe c =
     (ck_fresh c, c\<lparr>ck_waiters := ck_waiters c @ [(ck_fresh c, False)], ck_fresh := Suc (ck_fresh c)\<rparr>)"

abbreviation Subscribe :: "Checker \<Rightarrow> nat \<times> Checker" where
  "Subscribe c \<equiv> subscribe c"

text \<open>The cancel function of a subscription removes its first occurrence.\<close>

fun remove_waiter :: "nat \<Rightarrow> (nat \<times> bool) list \<Rightarrow> (nat \<times> bool) list" where
  "remove_waiter ch [] = []"
| "remove_waiter ch (w # ws) = (if fst w = ch then ws else w # remove_waiter ch ws)"

definition cancel :: "nat \<Rightarrow> Checker \<Rightarrow> Checker" where
  "cancel ch c = c\<lparr>ck_waiters := remove_waiter ch (ck_waiters c)\<rparr>"

definition notify :: "Checker \<Rightarrow> Checker" where
  "notify c = c\<lparr>ck_waiters := map (\<lambda>(ch, full). (ch, True)) (ck_waiters c)\<rparr>"

text \<open>A receive from channel \<open>ch\<close> empties its slot; it is possible only when the slot is full.\<close>

definition signalled :: "Checker \<Rightarrow> nat \<Rightarrow> bool" where
  "signalled c ch \<longleftrightarrow> (ch, True) \<in> set (ck_waiters c)"

definition registered :: "Checker \<Rightarrow> nat \<Rightarrow> bool" where
  "registered c ch \<longleftrightarrow> ch \<in> fst ` set (ck_waiters c)"

definition receive :: "nat \<Rightarrow> Checker \<Rightarrow> Checker" where
  "receive ch c =
     c\<lparr>ck_waiters := map (\<lambda>(i, full). (i, if i = ch then False else full)) (ck_waiters c)\<rparr>"

section \<open>One probe\<close>

record probe_env =
  pe_dial :: "string option"
  pe_auth_sent :: bool
  pe_info_sent :: bool
  pe_stream :: string
  pe_took :: int
  pe_now :: int

definition queryRole :: "probe_env \<Rightarrow> RoleOptions \<Rightarrow> role_error + string" where
  "queryRole env opts =
     (case pe_dial env of
        Some e \<Rightarrow> Inl (RoleDial e)
      | None \<Rightarrow>
          (let auth =
             (if ro_Password opts = [] then Inr (pe_stream env)
              else
                (case WriteCommand (pe_auth_sent env) [] (AuthArgs (ro_Username opts) (ro_Password opts)) of
                   (Some e, _) \<Rightarrow> Inl (RoleAuth e)
                 | (None, _) \<Rightarrow>
                     (case ReadSimpleString (pe_stream env) of
                        (Some e, _) \<Rightarrow> Inl (RoleAuth e)
                      | (None, r) \<Rightarrow> Inr r)))
           in case auth of
                Inl e \<Rightarrow> Inl e
              | Inr r \<Rightarrow>
                  (case WriteCommand (pe_info_sent env) [] [''INFO'', ''replication''] of
                     (Some e, _) \<Rightarrow> Inl (RoleInfo e)
                   | (None, _) \<Rightarrow>
                       (case ReadBulkString r of
                          (Inl e, _) \<Rightarrow> Inl (RoleInfoRead e)
                        | (Inr body, _) \<Rightarrow> parseRoleFromInfo body))))"

definition probe_failed :: "role_error \<Rightarrow> Checker \<Rightarrow> Checker \<times> effect list" where
  "probe_failed e c =
     (c\<lparr>ck_probeErr := Some e\<rparr>,
      [Report [(''stage'', ''role.probe''), (''redis_address'', ro_Address (ck_opts c)),
               (''redis_network'', ro_Network (ck_opts c))]])"

text \<open>The stores of a successful probe, in the order of the code.\<close>

definition store_master :: "string \<Rightarrow> Checker \<Rightarrow> Checker" where
  "store_master role c = c\<lparr>ck_probeErr := None, ck_isMaster := (role = RoleMaster)\<rparr>"

definition store_current :: "string \<Rightarrow> Checker \<Rightarrow> Checker" where
  "store_current role c = c\<lparr>ck_current := role\<rparr>"

definition publish :: "string \<Rightarrow> string \<Rightarrow> Checker \<Rightarrow> Checker \<times> effect list" where
  "publish oldRole role c =
     (let set_role = to_sink (ck_metrics c) [CSetRedisRole role] in
      if oldRole \<noteq> role
      then (notify c, set_role @ to_sink (ck_metrics c) [CRoleTransition oldRole role])
      else (c, set_role))"

definition probeOnce :: "probe_env \<Rightarrow> Checker \<Rightarrow> Checker \<times> effect list" where
  "probeOnce env c =
     (let res = queryRole env (ck_opts c);
          probed = to_sink (ck_metrics c) [CRoleProbe (\<not> isl res) (pe_took env) (pe_now env)]
      in case res of
           Inl e \<Rightarrow> (case probe_failed e c of (c', es) \<Rightarrow> (c', probed @ es))
         | Inr role \<Rightarrow>
             (let oldRole = Checker_Role c;
                  (c', es) = publish oldRole role (store_current role (store_master role c))
              in (c', probed @ es)))"

definition LastError :: "Checker \<Rightarrow> role_error option" where
  "LastError c = ck_probeErr c"

text \<open>\<^verbatim>\<open>Run\<close>: a probe at the start and one per tick, until the context is done.\<close>

fun Checker_Run :: "probe_env list \<Rightarrow> Checker \<Rightarrow> Checker \<times> effect list" where
  "Checker_Run [] c = (c, [])"
| "Checker_Run (env # envs) c =
     (let (c1, es) = probeOnce env c; (c2, fs) = Checker_Run envs c1 in (c2, es @ fs))"

section \<open>Facts\<close>

text \<open>The two views of the role agree, and channel identities are distinct and used up.\<close>

definition role_ok :: "Checker \<Rightarrow> bool" where
  "role_ok c \<longleftrightarrow> ck_isMaster c = (ck_current c = RoleMaster)"

definition waiters_ok :: "Checker \<Rightarrow> bool" where
  "waiters_ok c \<longleftrightarrow> distinct (map fst (ck_waiters c)) \<and> (\<forall>ch\<in>set (map fst (ck_waiters c)). ch < ck_fresh c)"

lemmas checker_defs = subscribe_def cancel_def notify_def receive_def signalled_def registered_def
  store_master_def store_current_def

lemma set_remove_waiter: "distinct (map fst ws) \<Longrightarrow> set (remove_waiter ch ws) = {w \<in> set ws. fst w \<noteq> ch}"
  by (induction ws) force+

lemma distinct_remove_waiter: "distinct (map fst ws) \<Longrightarrow> distinct (map fst (remove_waiter ch ws))"
  by (induction ws) (auto simp: set_remove_waiter)

lemma waiters_fst [simp]:
  "map fst (ck_waiters (notify c)) = map fst (ck_waiters c)"
  "map fst (ck_waiters (receive ch c)) = map fst (ck_waiters c)"
  by (simp_all add: notify_def receive_def comp_def case_prod_unfold)

lemma role_fields [simp]:
  "ck_opts (notify c) = ck_opts c" "ck_isMaster (notify c) = ck_isMaster c"
  "ck_current (notify c) = ck_current c" "ck_probeErr (notify c) = ck_probeErr c"
  "ck_fresh (notify c) = ck_fresh c" "ck_metrics (notify c) = ck_metrics c"
  by (simp_all add: notify_def)

lemma probeOnce_cases:
  assumes "probeOnce env c = (c', es)"
  obtains
    (failed) e where "queryRole env (ck_opts c) = Inl e" "c' = c\<lparr>ck_probeErr := Some e\<rparr>"
  | (same) "queryRole env (ck_opts c) = Inr (ck_current c)"
      "c' = c\<lparr>ck_probeErr := None, ck_isMaster := (ck_current c = RoleMaster)\<rparr>"
  | (changed) role where "queryRole env (ck_opts c) = Inr role" "role \<noteq> ck_current c"
      "c' = notify (c\<lparr>ck_probeErr := None, ck_isMaster := (role = RoleMaster), ck_current := role\<rparr>)"
  using assms
  by (cases "queryRole env (ck_opts c)")
     (auto simp: probeOnce_def probe_failed_def publish_def store_master_def store_current_def Let_def
       split: if_splits)

lemma waiters_ok_subscribe: "waiters_ok c \<Longrightarrow> waiters_ok (snd (subscribe c))"
  by (auto simp: waiters_ok_def subscribe_def less_Suc_eq)

lemma waiters_ok_cancel: "waiters_ok c \<Longrightarrow> waiters_ok (cancel ch c)"
  by (auto simp: waiters_ok_def cancel_def distinct_remove_waiter set_remove_waiter)

lemma waiters_ok_notify: "waiters_ok c \<Longrightarrow> waiters_ok (notify c)"
  unfolding waiters_ok_def waiters_fst by (simp add: notify_def)

lemma waiters_ok_receive: "waiters_ok c \<Longrightarrow> waiters_ok (receive ch c)"
  unfolding waiters_ok_def waiters_fst by (simp add: receive_def)

lemma waiters_ok_stores [simp]:
  "waiters_ok (c\<lparr>ck_probeErr := e\<rparr>) = waiters_ok c"
  "waiters_ok (c\<lparr>ck_isMaster := b\<rparr>) = waiters_ok c"
  "waiters_ok (c\<lparr>ck_current := r\<rparr>) = waiters_ok c"
  "waiters_ok (c\<lparr>ck_probeErr := e, ck_isMaster := b\<rparr>) = waiters_ok c"
  "waiters_ok (c\<lparr>ck_probeErr := e, ck_isMaster := b, ck_current := r\<rparr>) = waiters_ok c"
  by (simp_all add: waiters_ok_def)

lemma registered_stores [simp]:
  "registered (c\<lparr>ck_probeErr := e\<rparr>) = registered c"
  "registered (c\<lparr>ck_isMaster := b\<rparr>) = registered c"
  "registered (c\<lparr>ck_current := r\<rparr>) = registered c"
  "registered (c\<lparr>ck_probeErr := e, ck_isMaster := b\<rparr>) = registered c"
  "registered (c\<lparr>ck_probeErr := e, ck_isMaster := b, ck_current := r\<rparr>) = registered c"
  by (simp_all add: registered_def fun_eq_iff)

lemma signalled_stores [simp]:
  "signalled (c\<lparr>ck_probeErr := e\<rparr>) = signalled c"
  "signalled (c\<lparr>ck_isMaster := b\<rparr>) = signalled c"
  "signalled (c\<lparr>ck_current := r\<rparr>) = signalled c"
  "signalled (c\<lparr>ck_probeErr := e, ck_isMaster := b\<rparr>) = signalled c"
  "signalled (c\<lparr>ck_probeErr := e, ck_isMaster := b, ck_current := r\<rparr>) = signalled c"
  by (simp_all add: signalled_def fun_eq_iff)

lemma signalled_notify: "signalled (notify c) ch \<longleftrightarrow> registered c ch"
  by (force simp: checker_defs)

lemma registered_notify [simp]: "registered (notify c) ch \<longleftrightarrow> registered c ch"
  by (force simp: checker_defs)

lemma signalled_registered: "signalled c ch \<Longrightarrow> registered c ch"
  by (force simp: checker_defs)

text \<open>The checker is a gate, with one probe as the update.\<close>

interpretation role_gate: gate "\<lambda>c. role_ok c \<and> waiters_ok c" IsActive subscribe registered signalled
  "\<lambda>env c. fst (probeOnce env c)"
proof unfold_locales
  fix c env ch
  obtain c' es where p: "probeOnce env c = (c', es)" by (meson surj_pair)
  show "role_ok (fst (probeOnce env c)) \<and> waiters_ok (fst (probeOnce env c))" if "role_ok c \<and> waiters_ok c"
    using p by (cases rule: probeOnce_cases) (use that p in \<open>auto simp: role_ok_def waiters_ok_notify\<close>)
  show "registered (fst (probeOnce env c)) ch" if "registered c ch"
    using p by (cases rule: probeOnce_cases) (use that p in auto)
  show "signalled (fst (probeOnce env c)) ch" if "signalled c ch"
    using p by (cases rule: probeOnce_cases)
      (use that p in \<open>auto simp: signalled_notify signalled_registered\<close>)
  show "signalled (fst (probeOnce env c)) ch"
    if "role_ok c \<and> waiters_ok c" "registered c ch" "IsActive (fst (probeOnce env c)) \<noteq> IsActive c"
    using p by (cases rule: probeOnce_cases)
      (use that p in \<open>auto simp: signalled_notify role_ok_def IsActive_def IsMaster_def split: if_splits\<close>)
next
  fix c :: Checker
  show "role_ok (snd (subscribe c)) \<and> waiters_ok (snd (subscribe c))" if "role_ok c \<and> waiters_ok c"
    using that waiters_ok_subscribe by (auto simp: role_ok_def subscribe_def)
  show "registered (snd (subscribe c)) (fst (subscribe c))" by (simp add: checker_defs)
  show "\<not> signalled (snd (subscribe c)) (fst (subscribe c))" if "role_ok c \<and> waiters_ok c"
    using that by (force simp: checker_defs waiters_ok_def)
  show "IsActive (snd (subscribe c)) = IsActive c" by (simp add: IsActive_def IsMaster_def subscribe_def)
qed

section \<open>Waiting, interleaved with probing\<close>

text \<open>
  One goroutine runs \<^verbatim>\<open>Wait\<close>, another the probe loop; other subscribers come and go. The
  program counters name the point each has reached. Each rule is one atomic operation of the code:
  an atomic load or store, or a critical section of the mutex.
\<close>

datatype wait_pc =
    WEnter | WSubscribe | WRecheck nat | WSelect nat | WWoken nat | WCheck | WReturned | WCancelled

datatype probe_pc = PIdle | PMasterStored string | PCurrentStored string string

record sys =
  sy_checker :: Checker
  sy_wait :: wait_pc
  sy_probe :: probe_pc
  sy_done :: bool

fun own_channel :: "wait_pc \<Rightarrow> nat option" where
  "own_channel (WRecheck ch) = Some ch"
| "own_channel (WSelect ch) = Some ch"
| "own_channel (WWoken ch) = Some ch"
| "own_channel pc = None"

inductive sys_step :: "sys \<Rightarrow> sys \<Rightarrow> bool" where
  enter_active: "sy_wait s = WEnter \<Longrightarrow> IsMaster (sy_checker s) \<Longrightarrow> sys_step s (s\<lparr>sy_wait := WReturned\<rparr>)"
| enter_inactive: "sy_wait s = WEnter \<Longrightarrow> \<not> IsMaster (sy_checker s) \<Longrightarrow> sys_step s (s\<lparr>sy_wait := WSubscribe\<rparr>)"
| wait_subscribe: "sy_wait s = WSubscribe \<Longrightarrow> subscribe (sy_checker s) = (ch, c') \<Longrightarrow>
    sys_step s (s\<lparr>sy_checker := c', sy_wait := WRecheck ch\<rparr>)"
| recheck_active: "sy_wait s = WRecheck ch \<Longrightarrow> IsMaster (sy_checker s) \<Longrightarrow>
    sys_step s (s\<lparr>sy_checker := cancel ch (sy_checker s), sy_wait := WReturned\<rparr>)"
| recheck_inactive: "sy_wait s = WRecheck ch \<Longrightarrow> \<not> IsMaster (sy_checker s) \<Longrightarrow>
    sys_step s (s\<lparr>sy_wait := WSelect ch\<rparr>)"
| select_signal: "sy_wait s = WSelect ch \<Longrightarrow> signalled (sy_checker s) ch \<Longrightarrow>
    sys_step s (s\<lparr>sy_checker := receive ch (sy_checker s), sy_wait := WWoken ch\<rparr>)"
| select_done: "sy_wait s = WSelect ch \<Longrightarrow> sy_done s \<Longrightarrow>
    sys_step s (s\<lparr>sy_checker := cancel ch (sy_checker s), sy_wait := WCancelled\<rparr>)"
| woken_cancel: "sy_wait s = WWoken ch \<Longrightarrow>
    sys_step s (s\<lparr>sy_checker := cancel ch (sy_checker s), sy_wait := WCheck\<rparr>)"
| check_active: "sy_wait s = WCheck \<Longrightarrow> IsMaster (sy_checker s) \<Longrightarrow> sys_step s (s\<lparr>sy_wait := WReturned\<rparr>)"
| check_inactive: "sy_wait s = WCheck \<Longrightarrow> \<not> IsMaster (sy_checker s) \<Longrightarrow> sys_step s (s\<lparr>sy_wait := WSubscribe\<rparr>)"
| probe_fails: "sy_probe s = PIdle \<Longrightarrow>
    sys_step s (s\<lparr>sy_checker := fst (probe_failed e (sy_checker s))\<rparr>)"
| probe_master: "sy_probe s = PIdle \<Longrightarrow>
    sys_step s (s\<lparr>sy_checker := store_master role (sy_checker s), sy_probe := PMasterStored role\<rparr>)"
| probe_current: "sy_probe s = PMasterStored role \<Longrightarrow>
    sys_step s (s\<lparr>sy_checker := store_current role (sy_checker s),
                  sy_probe := PCurrentStored (ck_current (sy_checker s)) role\<rparr>)"
| probe_publish: "sy_probe s = PCurrentStored oldRole role \<Longrightarrow>
    sys_step s (s\<lparr>sy_checker := fst (publish oldRole role (sy_checker s)), sy_probe := PIdle\<rparr>)"
| other_subscribes: "sys_step s (s\<lparr>sy_checker := snd (subscribe (sy_checker s))\<rparr>)"
| other_cancels: "own_channel (sy_wait s) \<noteq> Some ch \<Longrightarrow>
    sys_step s (s\<lparr>sy_checker := cancel ch (sy_checker s)\<rparr>)"
| other_receives: "own_channel (sy_wait s) \<noteq> Some ch \<Longrightarrow>
    sys_step s (s\<lparr>sy_checker := receive ch (sy_checker s)\<rparr>)"
| context_done: "sys_step s (s\<lparr>sy_done := True\<rparr>)"

inductive_cases sys_step_elim: "sys_step s s'"

definition sys_init :: "RoleOptions \<Rightarrow> bool \<Rightarrow> sys" where
  "sys_init opts m = \<lparr>sy_checker = New_Checker opts m, sy_wait = WEnter, sy_probe = PIdle, sy_done = False\<rparr>"

text \<open>A notification of a change of role is still to come from the probe in progress.\<close>

definition notice_due :: "sys \<Rightarrow> bool" where
  "notice_due s = (case sy_probe s of
      PIdle \<Rightarrow> False
    | PMasterStored role \<Rightarrow> ck_current (sy_checker s) \<noteq> role
    | PCurrentStored oldRole role \<Rightarrow> oldRole \<noteq> role)"

definition probe_ok :: "sys \<Rightarrow> bool" where
  "probe_ok s = (case sy_probe s of
      PIdle \<Rightarrow> role_ok (sy_checker s)
    | PMasterStored role \<Rightarrow> ck_isMaster (sy_checker s) = (role = RoleMaster)
    | PCurrentStored oldRole role \<Rightarrow> ck_current (sy_checker s) = role \<and> role_ok (sy_checker s))"

definition sys_inv :: "sys \<Rightarrow> bool" where
  "sys_inv s \<longleftrightarrow> waiters_ok (sy_checker s) \<and> probe_ok s \<and>
     (\<forall>ch. own_channel (sy_wait s) = Some ch \<longrightarrow> registered (sy_checker s) ch) \<and>
     (\<forall>ch. sy_wait s = WSelect ch \<and> ck_isMaster (sy_checker s) \<longrightarrow>
        signalled (sy_checker s) ch \<or> notice_due s) \<and>
     (ro_AllowReplica (ck_opts (sy_checker s)) \<longrightarrow> sy_wait s \<in> {WEnter, WReturned})"

lemma waiter_fields [simp]:
  "ck_isMaster (cancel ch c) = ck_isMaster c" "ck_current (cancel ch c) = ck_current c"
  "ck_opts (cancel ch c) = ck_opts c"
  "ck_isMaster (receive ch c) = ck_isMaster c" "ck_current (receive ch c) = ck_current c"
  "ck_opts (receive ch c) = ck_opts c"
  "ck_isMaster (snd (subscribe c)) = ck_isMaster c" "ck_current (snd (subscribe c)) = ck_current c"
  "ck_opts (snd (subscribe c)) = ck_opts c"
  by (simp_all add: checker_defs)

lemma registered_ops [simp]:
  "waiters_ok c \<Longrightarrow> registered (cancel ch c) i \<longleftrightarrow> registered c i \<and> i \<noteq> ch"
  "registered (receive ch c) i \<longleftrightarrow> registered c i"
  "registered (snd (subscribe c)) i \<longleftrightarrow> registered c i \<or> i = ck_fresh c"
  by (force simp: checker_defs waiters_ok_def set_remove_waiter)+

lemma signalled_ops [simp]:
  "waiters_ok c \<Longrightarrow> signalled (cancel ch c) i \<longleftrightarrow> signalled c i \<and> i \<noteq> ch"
  "signalled (receive ch c) i \<longleftrightarrow> signalled c i \<and> i \<noteq> ch"
  "signalled (snd (subscribe c)) i \<longleftrightarrow> signalled c i"
  by (auto simp: checker_defs waiters_ok_def set_remove_waiter image_iff split: if_splits intro: bexI [of _ "(i, True)"])

lemmas sys_inv_defs = sys_inv_def probe_ok_def notice_due_def role_ok_def

lemmas waiters_ok_ops = waiters_ok_subscribe waiters_ok_cancel waiters_ok_notify waiters_ok_receive

lemma sys_inv_init: "sys_inv (sys_init opts m)"
  by (simp add: sys_inv_defs sys_init_def New_Checker_def waiters_ok_def)

lemma sys_inv_step:
  assumes "sys_step s s'" "sys_inv s"
  shows "sys_inv s'"
  using assms
proof (cases rule: sys_step.cases)
  case (wait_subscribe ch c')
  then have eq: "c' = snd (subscribe (sy_checker s))" "ch = ck_fresh (sy_checker s)" by (auto simp: subscribe_def)
  from wait_subscribe(1,2) assms(2) show ?thesis unfolding eq
    by (auto simp: sys_inv_defs waiters_ok_ops split: probe_pc.splits)
next
  case (probe_master role)
  with assms(2) show ?thesis by (auto simp: sys_inv_defs store_master_def)
next
  case (probe_current role)
  with assms(2) show ?thesis by (auto simp: sys_inv_defs store_current_def)
next
  case (probe_publish oldRole role)
  with assms(2) show ?thesis
    by (auto simp: sys_inv_defs publish_def Let_def signalled_notify waiters_ok_ops)
next
  case (probe_fails e)
  with assms(2) show ?thesis by (auto simp: sys_inv_defs probe_failed_def)
qed (use assms(2) in \<open>auto simp: sys_inv_defs IsMaster_def waiters_ok_ops split: if_splits probe_pc.splits\<close>)

lemma sys_reachable_inv: "sys_step\<^sup>*\<^sup>* (sys_init opts m) s \<Longrightarrow> sys_inv s"
  by (induction rule: rtranclp_induct) (auto simp: sys_inv_init intro: sys_inv_step)

section \<open>Properties\<close>

text \<open>
  C3: \<^verbatim>\<open>Wait\<close> cannot miss a promotion. In every reachable interleaving of \<^verbatim>\<open>Wait\<close> with
  probes and other subscribers, whenever the waiter is blocked in its select while the checker
  already considers Redis a master, its channel holds a signal or the probe that stored the role
  has still to notify; that obligation never ends without the channel being signalled, and once no
  probe is in progress the waiter can proceed at once.
\<close>

theorem Wait_no_lost_wakeup:
  assumes "sys_step\<^sup>*\<^sup>* (sys_init opts m) s" and "sy_wait s = WSelect ch" and "IsMaster (sy_checker s)"
  shows "(signalled (sy_checker s) ch \<or> notice_due s) \<and>
    (\<forall>s'. sys_step s s' \<and> notice_due s \<and> \<not> notice_due s' \<longrightarrow> signalled (sy_checker s') ch) \<and>
    (sy_probe s = PIdle \<longrightarrow> (\<exists>s'. sys_step s s' \<and> sy_wait s' = WWoken ch))"
proof (intro conjI allI impI)
  have inv: "sys_inv s" by (rule sys_reachable_inv [OF assms(1)])
  then have "ck_isMaster (sy_checker s)"
    using assms(2,3) by (auto simp: sys_inv_def IsMaster_def split: if_splits)
  then show due: "signalled (sy_checker s) ch \<or> notice_due s"
    using inv assms(2) by (auto simp: sys_inv_def)
  show "\<exists>s'. sys_step s s' \<and> sy_wait s' = WWoken ch" if "sy_probe s = PIdle"
    using due that assms(2) sys_step.select_signal [of s ch] by (fastforce simp: notice_due_def)
  fix s'
  assume s': "sys_step s s' \<and> notice_due s \<and> \<not> notice_due s'"
  then have "\<exists>oldRole role. sy_probe s = PCurrentStored oldRole role \<and> oldRole \<noteq> role \<and>
      s' = s\<lparr>sy_checker := fst (publish oldRole role (sy_checker s)), sy_probe := PIdle\<rparr>"
    by (auto simp: notice_due_def store_current_def subscribe_def elim!: sys_step_elim split: probe_pc.splits)
  then show "signalled (sy_checker s') ch"
    using inv assms(2) by (auto simp: publish_def signalled_notify sys_inv_def)
qed

definition sample_role_opts :: RoleOptions where
  "sample_role_opts = \<lparr>ro_Network = ''tcp'', ro_Address = ''h:6379'', ro_Username = [], ro_Password = [],
     ro_DialTimeout = 0, ro_ReadTimeout = 0, ro_Interval = 0, ro_AllowReplica = False\<rparr>"

theorem Wait_no_lost_wakeup_witness:
  "\<exists>s. sys_step\<^sup>*\<^sup>* (sys_init sample_role_opts True) s \<and> sy_wait s = WSelect 0 \<and> notice_due s \<and>
     \<not> signalled (sy_checker s) 0"
proof -
  let ?s0 = "sys_init sample_role_opts True"
  let ?c1 = "snd (subscribe (sy_checker ?s0))"
  let ?s1 = "?s0\<lparr>sy_wait := WSubscribe\<rparr>"
  let ?s2 = "?s0\<lparr>sy_checker := ?c1, sy_wait := WRecheck 0\<rparr>"
  let ?s3 = "?s0\<lparr>sy_checker := ?c1, sy_wait := WSelect 0\<rparr>"
  let ?s4 = "?s0\<lparr>sy_checker := store_master RoleMaster ?c1, sy_wait := WSelect 0, sy_probe := PMasterStored RoleMaster\<rparr>"
  note defs = sys_init_def New_Checker_def IsMaster_def sample_role_opts_def subscribe_def store_master_def
  have "sys_step ?s0 ?s1" using sys_step.enter_inactive [of ?s0] by (simp add: defs)
  moreover have "sys_step ?s1 ?s2" using sys_step.wait_subscribe [of ?s1 0 ?c1] by (simp add: defs)
  moreover have "sys_step ?s2 ?s3" using sys_step.recheck_inactive [of ?s2 0] by (simp add: defs)
  moreover have "sys_step ?s3 ?s4" using sys_step.probe_master [of ?s3 RoleMaster] by (simp add: defs)
  ultimately have "sys_step\<^sup>*\<^sup>* ?s0 ?s4" by (meson converse_rtranclp_into_rtranclp rtranclp.rtrancl_refl)
  moreover have "IsMaster (sy_checker ?s4)" "sy_wait ?s4 = WSelect 0" "\<not> signalled (sy_checker ?s4) 0"
    by (simp_all add: defs signalled_def)
  moreover from calculation Wait_no_lost_wakeup [of sample_role_opts True ?s4 0] have "notice_due ?s4" by blast
  ultimately show ?thesis by blast
qed

text \<open>
  The role that a probe reports is that of the first \<^verbatim>\<open>role:\<close> line of the INFO reply, with
  the legacy name normalised; other lines are ignored, and without such a line the probe fails.
\<close>

theorem parseRoleFromInfo_first:
  assumes "\<forall>l\<in>set pre. CR \<notin> set l \<and> \<not> HasPrefix l ''role:''" "CR \<notin> set v" "\<forall>l\<in>set post. CR \<notin> set l"
  shows "parseRoleFromInfo (join CRLF (pre @ [''role:'' @ v] @ post)) =
      Inr (if TrimSpace v = ''slave'' then RoleReplica else TrimSpace v) \<and>
    (pre \<noteq> [] \<longrightarrow> parseRoleFromInfo (join CRLF pre) = Inl RoleNotFound)"
proof -
  have skip: "role_of_lines (pre @ ls) = role_of_lines ls" for ls
    using assms(1) by (induction pre) auto
  have "Split (join CRLF (pre @ [''role:'' @ v] @ post)) CRLF = pre @ [''role:'' @ v] @ post"
    using assms by (intro Split_join) auto
  moreover have "Split (join CRLF pre) CRLF = pre" if "pre \<noteq> []"
    using assms that by (intro Split_join) auto
  ultimately show ?thesis
    using skip [of "[]"] skip [of "[''role:'' @ v] @ post"] HasPrefix_append [of "''role:''" v]
    by (auto simp: parseRoleFromInfo_def TrimPrefix_def HasPrefix_def Let_def)
qed

theorem parseRoleFromInfo_first_witness:
  "parseRoleFromInfo (''# Replication'' @ CRLF @ ''role:slave'' @ CRLF @ ''master_port:6379'' @ CRLF) = Inr RoleReplica"
proof -
  have "TrimSpace ''slave'' = ''slave''" by code_simp
  with parseRoleFromInfo_first [of "[''# Replication'']" "''slave''" "[''master_port:6379'', []]"]
  show ?thesis by (simp add: HasPrefix_def)
qed

text \<open>The roles that the probes of a run read, in order.\<close>

definition probed_roles :: "RoleOptions \<Rightarrow> probe_env list \<Rightarrow> string list" where
  "probed_roles opts envs = concat (map (\<lambda>env. case queryRole env opts of Inl _ \<Rightarrow> [] | Inr r \<Rightarrow> [r]) envs)"

fun transitions :: "reg_call list \<Rightarrow> (string \<times> string) list" where
  "transitions [] = []"
| "transitions (CRoleTransition a b # cs) = (a, b) # transitions cs"
| "transitions (c # cs) = transitions cs"

lemma transitions_append [simp]: "transitions (a @ b) = transitions a @ transitions b"
  by (induction a rule: transitions.induct) simp_all

fun changes :: "string \<Rightarrow> string list \<Rightarrow> (string \<times> string) list" where
  "changes old [] = []"
| "changes old (r # rs) = (if old \<noteq> r then [(old, r)] else []) @ changes r rs"

lemma Checker_Run_facts:
  "Checker_Run envs c = (c', es) \<Longrightarrow> role_ok c \<Longrightarrow>
     role_ok c' \<and> ck_opts c' = ck_opts c \<and> ck_current c' = last (ck_current c # probed_roles (ck_opts c) envs) \<and>
     (envs \<noteq> [] \<longrightarrow> ck_probeErr c' =
        (case queryRole (last envs) (ck_opts c) of Inl e \<Rightarrow> Some e | Inr _ \<Rightarrow> None)) \<and>
     (ck_metrics c \<longrightarrow> transitions (metric_calls es) = changes (ck_current c) (probed_roles (ck_opts c) envs))"
proof (induction envs arbitrary: c c' es)
  case Nil
  then show ?case by (simp add: probed_roles_def)
next
  case (Cons env envs)
  obtain c1 es1 where p: "probeOnce env c = (c1, es1)" by (meson surj_pair)
  obtain c2 es2 where r: "Checker_Run envs c1 = (c2, es2)" by (meson surj_pair)
  have eq: "c' = c2" "es = es1 @ es2" using Cons.prems(1) p r by simp_all
  have one: "role_ok c1 \<and> ck_opts c1 = ck_opts c \<and> ck_metrics c1 = ck_metrics c \<and>
      ck_current c1 = last (ck_current c # probed_roles (ck_opts c) [env]) \<and>
      ck_probeErr c1 = (case queryRole env (ck_opts c) of Inl e \<Rightarrow> Some e | Inr _ \<Rightarrow> None) \<and>
      (ck_metrics c \<longrightarrow> transitions (metric_calls es1) = changes (ck_current c) (probed_roles (ck_opts c) [env]))"
    using p Cons.prems(2)
    by (cases "queryRole env (ck_opts c)")
       (auto simp: probeOnce_def probe_failed_def publish_def store_master_def store_current_def Let_def
         role_ok_def probed_roles_def split: if_splits)
  moreover have "probed_roles (ck_opts c) (env # envs) = probed_roles (ck_opts c) [env] @ probed_roles (ck_opts c) envs"
    by (simp add: probed_roles_def)
  moreover have "changes old (rs @ rs') = changes old rs @ changes (last (old # rs)) rs'" for old rs rs'
    by (induction rs arbitrary: old) auto
  ultimately show ?case
    using Cons.IH [OF r] r unfolding eq by (cases envs) (auto simp: probed_roles_def)
qed

text \<open>
  C16: The checker's state is a function of what the probes read. After any sequence of probes the
  current role is the one read last (``unknown'' before the first), failed probes leave it as it
  is (so a role outlives an outage of the probed server), \<^verbatim>\<open>IsMaster\<close> says whether that role is
  master unless replicas are allowed, the last error is that of the last probe, and the transitions
  published are exactly the changes in the sequence of roles.
\<close>

theorem Checker_Run_role:
  assumes "Checker_Run envs (New_Checker opts True) = (c, es)"
  shows "ck_current c = last (RoleUnknown # probed_roles (ck_opts c) envs) \<and>
    IsMaster c = (ro_AllowReplica opts \<or> ck_current c = RoleMaster) \<and>
    (envs \<noteq> [] \<longrightarrow> LastError c = (case queryRole (last envs) (ck_opts c) of Inl e \<Rightarrow> Some e | Inr _ \<Rightarrow> None)) \<and>
    transitions (metric_calls es) = changes RoleUnknown (probed_roles (ck_opts c) envs)"
  using Checker_Run_facts [OF assms]
  by (auto simp: New_Checker_def role_ok_def IsMaster_def LastError_def)

definition sample_probe :: "string \<Rightarrow> probe_env" where
  "sample_probe body = \<lparr>pe_dial = None, pe_auth_sent = True, pe_info_sent = True,
     pe_stream = bulk_frame body, pe_took = 0, pe_now = 0\<rparr>"

theorem Checker_Run_role_witness:
  "\<exists>c es. Checker_Run [sample_probe ''role:master'', sample_probe ''role:slave'', sample_probe []]
      (New_Checker sample_role_opts True) = (c, es) \<and> ck_current c = RoleReplica \<and> LastError c = Some RoleNotFound"
proof -
  let ?envs = "[sample_probe ''role:master'', sample_probe ''role:slave'', sample_probe []]"
  let ?opts = "ck_opts (New_Checker sample_role_opts True)"
  obtain c es where r: "Checker_Run ?envs (New_Checker sample_role_opts True) = (c, es)" by (meson surj_pair)
  have "ck_opts c = ?opts"
    using Checker_Run_facts [OF r] by (simp add: New_Checker_def role_ok_def)
  moreover have "probed_roles ?opts ?envs = [RoleMaster, RoleReplica]" "queryRole (sample_probe []) ?opts = Inl RoleNotFound"
    by code_simp+
  ultimately show ?thesis using Checker_Run_role [OF r] r by simp
qed

text \<open>
  A subscription that a MONITOR session holds is signalled whenever the gate has closed since
  it was taken, whatever probes happened in between: the session's watcher cannot miss it. But a
  gate that closed before the subscription, while the client was dialling, is not reported: the
  channel stays silent for as long as the probes read the same role.
\<close>

theorem Subscribe_watch:
  assumes "role_ok c" "waiters_ok c" "subscribe c = (ch, c')"
  shows "(IsActive c \<and> \<not> IsActive (fold (\<lambda>env c. fst (probeOnce env c)) envs c') \<longrightarrow>
      signalled (fold (\<lambda>env c. fst (probeOnce env c)) envs c') ch) \<and>
    ((\<forall>env\<in>set envs. queryRole env (ck_opts c) = Inr (ck_current c)) \<longrightarrow>
      \<not> signalled (fold (\<lambda>env c. fst (probeOnce env c)) envs c') ch)"
proof (intro conjI impI)
  show "signalled (fold (\<lambda>env c. fst (probeOnce env c)) envs c') ch"
    if "IsActive c \<and> \<not> IsActive (fold (\<lambda>env c. fst (probeOnce env c)) envs c')"
    using role_gate.watcher_woken [of c envs] assms that by simp
next
  assume same: "\<forall>env\<in>set envs. queryRole env (ck_opts c) = Inr (ck_current c)"
  have silent: "\<not> signalled c' ch" using role_gate.subscribe_silent [of c] assms by simp
  have step: "ck_opts (fst (probeOnce env d)) = ck_opts c \<and> ck_current (fst (probeOnce env d)) = ck_current c \<and>
      \<not> signalled (fst (probeOnce env d)) ch"
    if "ck_opts d = ck_opts c" "ck_current d = ck_current c" "\<not> signalled d ch" "env \<in> set envs" for d env
    using that same by (auto simp: probeOnce_def publish_def store_master_def store_current_def Let_def signalled_def)
  have "\<not> signalled (fold (\<lambda>env c. fst (probeOnce env c)) es d) ch"
    if "set es \<subseteq> set envs" "ck_opts d = ck_opts c" "ck_current d = ck_current c" "\<not> signalled d ch" for es d
    using that by (induction es arbitrary: d) (simp_all add: step)
  then show "\<not> signalled (fold (\<lambda>env c. fst (probeOnce env c)) envs c') ch"
    using silent assms(3) by (auto simp: subscribe_def)
qed

theorem Subscribe_watch_witness:
  "\<not> signalled (fst (probeOnce (sample_probe ''role:unknown'') (snd (subscribe (New_Checker sample_role_opts True))))) 0"
proof -
  have "queryRole (sample_probe ''role:unknown'') (ck_opts (New_Checker sample_role_opts True)) = Inr RoleUnknown"
    by code_simp
  with Subscribe_watch [of "New_Checker sample_role_opts True" 0 "snd (subscribe (New_Checker sample_role_opts True))"
      "[sample_probe ''role:unknown'']"]
  show ?thesis by (simp add: New_Checker_def role_ok_def waiters_ok_def subscribe_def)
qed

end
