(* ===== verification/Alert.thy ===== *)
theory Alert
  imports Encode Effect
begin

text \<open>
  The alert engine of \<^verbatim>\<open>internal/alert\<close>: rules on commands and patterns, a rate limit per
  command and source, bounded retries with backoff, and the three notification channels. The
  \<^verbatim>\<open>regexp\<close> package is the parameter \<open>regexp_engine\<close> (which patterns compile, and what
  they match; a compiled pattern is its source text). HTTP exchanges and pushes to a Pushgateway
  are answers of the environment, one \<open>send_env\<close> for each call of a channel. The spans
  around a dispatch are in theory \<^verbatim>\<open>Trace\<close>.
\<close>

record regexp_engine =
  rx_compiles :: "string \<Rightarrow> bool"
  rx_match :: "string \<Rightarrow> string \<Rightarrow> bool"

section \<open>Alerts\<close>

record Alert =
  al_Timestamp :: gotime
  al_Command :: string
  al_Source :: string
  al_DB :: int
  al_Reason :: string
  al_Event :: Event

text \<open>The bytes of the ellipsis that ends a shortened command line.\<close>

abbreviation ellipsis :: string where
  "ellipsis \<equiv> [CHR 0xE2, CHR 0x80, CHR 0xA6]"

definition Renderer :: "Alert \<Rightarrow> string" where
  "Renderer a =
     ''[Redis Watcher] '' @ al_Reason a @ [LF] @
     ''time: '' @ RFC3339 (al_Timestamp a) @ [LF] @
     ''command: '' @ al_Command a @ [LF] @
     ''source: '' @ al_Source a @ '' (db '' @ Itoa (al_DB a) @ '')'' @ [LF] @
     ''raw: '' @
     (let line = CommandLine (al_Event a) in if 512 < length line then take 512 line @ ellipsis else line)"

text \<open>The scan from the right of \<^verbatim>\<open>sourceIP\<close> stops at the last colon.\<close>

definition sourceIP :: "string \<Rightarrow> string" where
  "sourceIP source =
     (case LastIndexByte source (CHR '':'') of None \<Rightarrow> source | Some i \<Rightarrow> take i source)"

section \<open>Channels\<close>

datatype http_result = HttpFailed string | HttpStatus int

record send_env =
  se_request_ok :: bool
  se_http :: http_result
  se_push :: "string \<Rightarrow> string option"
  se_took :: int
  se_ctx_done :: bool

record http_request =
  rq_method :: string
  rq_url :: string
  rq_headers :: "(string \<times> string) list"
  rq_body :: string

datatype send_error =
    MarshalFailed enc_error
  | BadRequest
  | RequestFailed string
  | BadStatus int
  | NoURLs
  | PushFailed "(string \<times> string) list"
  | RetryAborted

definition http_outcome :: "send_env \<Rightarrow> send_error option" where
  "http_outcome env =
     (if \<not> se_request_ok env then Some BadRequest
      else case se_http env of
             HttpFailed e \<Rightarrow> Some (RequestFailed e)
           | HttpStatus code \<Rightarrow> if code div 100 \<noteq> 2 then Some (BadStatus code) else None)"

record TelegramOptions =
  to_Endpoint :: string
  to_BotToken :: string
  to_ChatID :: string
  to_ThreadID :: int
  to_Timeout :: int

record TelegramChannel =
  tg_endpoint :: string
  tg_botToken :: string
  tg_chatID :: string
  tg_threadID :: int
  tg_timeout :: int

abbreviation DefaultTelegramEndpoint :: string where
  "DefaultTelegramEndpoint \<equiv> ''https://api.telegram.org''"

definition NewTelegramChannel :: "TelegramOptions \<Rightarrow> TelegramChannel" where
  "NewTelegramChannel opts =
     (let endpoint = TrimRight (to_Endpoint opts) ''/'' in
      \<lparr>tg_endpoint = (if endpoint = [] then DefaultTelegramEndpoint else endpoint),
       tg_botToken = to_BotToken opts, tg_chatID = to_ChatID opts, tg_threadID = to_ThreadID opts,
       tg_timeout = (if to_Timeout opts \<le> 0 then 5 * Second else to_Timeout opts)\<rparr>)"

definition telegramRequest :: "TelegramChannel \<Rightarrow> Alert \<Rightarrow> string" where
  "telegramRequest t a =
     json_object
       ([json_member ''chat_id'' (json_string (tg_chatID t)),
         json_member ''text'' (json_string (Renderer a))] @
        (if tg_threadID t = 0 then [] else [json_member ''message_thread_id'' (Itoa (tg_threadID t))]))"

definition Telegram_request :: "TelegramChannel \<Rightarrow> Alert \<Rightarrow> http_request" where
  "Telegram_request t a =
     \<lparr>rq_method = ''POST'', rq_url = tg_endpoint t @ ''/bot'' @ tg_botToken t @ ''/sendMessage'',
      rq_headers = [(''Content-Type'', ''application/json'')], rq_body = telegramRequest t a\<rparr>"

definition Telegram_Send :: "send_env \<Rightarrow> TelegramChannel \<Rightarrow> Alert \<Rightarrow> http_request \<times> send_error option" where
  "Telegram_Send env t a = (Telegram_request t a, http_outcome env)"

record WebhookChannel =
  wh_url :: string
  wh_method :: string
  wh_headers :: "(string \<times> string) list"
  wh_timeout :: int

definition NewWebhookChannel ::
  "unicode \<Rightarrow> string \<Rightarrow> string \<Rightarrow> (string \<times> string) list \<Rightarrow> int \<Rightarrow> WebhookChannel" where
  "NewWebhookChannel U url method headers timeout =
     \<lparr>wh_url = url, wh_method = ToUpper U (if method = [] then ''POST'' else method), wh_headers = headers,
      wh_timeout = (if timeout \<le> 0 then 5 * Second else timeout)\<rparr>"

definition webhookPayload :: "Alert \<Rightarrow> enc_error + string" where
  "webhookPayload a =
     (case json_time (al_Timestamp a) of
        Inl e \<Rightarrow> Inl e
      | Inr ts \<Rightarrow>
          (case json_event (al_Event a) of
             Inl e \<Rightarrow> Inl e
           | Inr ev \<Rightarrow>
               Inr (json_object
                 [json_member ''timestamp'' ts, json_member ''reason'' (json_string (al_Reason a)),
                  json_member ''command'' (json_string (al_Command a)),
                  json_member ''source'' (json_string (al_Source a)),
                  json_member ''db'' (Itoa (al_DB a)), json_member ''text'' (json_string (Renderer a)),
                  json_member ''event'' ev])))"

text \<open>The header list is the sequence of \<^verbatim>\<open>Header.Set\<close> calls, a later one overriding.\<close>

definition Webhook_request :: "WebhookChannel \<Rightarrow> string \<Rightarrow> http_request" where
  "Webhook_request w body =
     \<lparr>rq_method = wh_method w, rq_url = wh_url w,
      rq_headers = (if ''Content-Type'' \<in> fst ` set (wh_headers w) then []
                    else [(''Content-Type'', ''application/json'')]) @ wh_headers w,
      rq_body = body\<rparr>"

definition Webhook_Send ::
  "send_env \<Rightarrow> WebhookChannel \<Rightarrow> Alert \<Rightarrow> http_request option \<times> send_error option" where
  "Webhook_Send env w a =
     (case webhookPayload a of
        Inl e \<Rightarrow> (None, Some (MarshalFailed e))
      | Inr body \<Rightarrow> (Some (Webhook_request w body), http_outcome env))"

record PushgatewayChannel =
  pg_urls :: "string list"
  pg_job :: string
  pg_username :: string
  pg_password :: string
  pg_labels :: "(string \<times> string) list"
  pg_timeout :: int

record PushgatewayOptions =
  po_URLs :: "string list"
  po_Job :: string
  po_Username :: string
  po_Password :: string
  po_Labels :: "(string \<times> string) list"
  po_Timeout :: int

definition NewPushgatewayChannel :: "PushgatewayOptions \<Rightarrow> PushgatewayChannel" where
  "NewPushgatewayChannel opts =
     \<lparr>pg_urls = po_URLs opts, pg_job = po_Job opts, pg_username = po_Username opts,
      pg_password = po_Password opts, pg_labels = po_Labels opts,
      pg_timeout = (if po_Timeout opts \<le> 0 then 5 * Second else po_Timeout opts)\<rparr>"

text \<open>
  The pushed sample: the label values of the one series. A push happens for every URL; the errors
  are gathered in the order in which the goroutines finish, here the order of the URLs.
  \<^verbatim>\<open>WithLabelValues\<close> panics on a value that is not valid UTF-8, which is not modelled here: commands
  of parsed events are valid, addresses are ASCII and the reasons quote the configuration.
\<close>

definition push_labels :: "Alert \<Rightarrow> string list" where
  "push_labels a = [al_Command a, sourceIP (al_Source a), al_Reason a]"

definition push_errors :: "send_env \<Rightarrow> string list \<Rightarrow> (string \<times> string) list" where
  "push_errors env urls = concat (map (\<lambda>u. case se_push env u of None \<Rightarrow> [] | Some e \<Rightarrow> [(u, e)]) urls)"

definition Pushgateway_Send :: "send_env \<Rightarrow> PushgatewayChannel \<Rightarrow> Alert \<Rightarrow> send_error option" where
  "Pushgateway_Send env p a =
     (if pg_urls p = [] then Some NoURLs
      else let errs = push_errors env (pg_urls p) in if errs = [] then None else Some (PushFailed errs))"

text \<open>The interface \<^verbatim>\<open>Channel\<close>.\<close>

datatype Channel = Telegram TelegramChannel | Webhook WebhookChannel | Pushgateway PushgatewayChannel

fun Channel_Name :: "Channel \<Rightarrow> string" where
  "Channel_Name (Telegram t) = ''telegram''"
| "Channel_Name (Webhook w) = ''webhook''"
| "Channel_Name (Pushgateway p) = ''pushgateway''"

fun Channel_Send :: "send_env \<Rightarrow> Channel \<Rightarrow> Alert \<Rightarrow> send_error option" where
  "Channel_Send env (Telegram t) a = snd (Telegram_Send env t a)"
| "Channel_Send env (Webhook w) a = snd (Webhook_Send env w a)"
| "Channel_Send env (Pushgateway p) a = Pushgateway_Send env p a"

section \<open>The engine\<close>

record bucket =
  b_windowStart :: int
  b_count :: int

record Engine =
  en_channels :: "Channel list"
  en_commands :: "string set"
  en_patterns :: "string list"
  en_ignoredIPs :: "string set"
  en_rateLimit :: bool
  en_rateWindow :: int
  en_rateMaxAlerts :: int
  en_retryMax :: int
  en_retryInitialBackoff :: int
  en_retryMaxBackoff :: int
  en_rates :: "string \<Rightarrow> bucket option"
  en_in :: "Event chan"
  en_rep :: bool
  en_timeout :: int
  en_drop :: bool
  en_dropped :: "64 word"

record AlertOptions =
  ao_Channels :: "Channel list"
  ao_Commands :: "string list"
  ao_Patterns :: "string list"
  ao_IgnoredSourceIPs :: "string list"
  ao_RateLimitEnabled :: bool
  ao_RateWindow :: int
  ao_RateMaxAlerts :: int
  ao_RetryMaxAttempts :: int
  ao_RetryInitialBackoff :: int
  ao_RetryMaxBackoff :: int
  ao_BufferSize :: int
  ao_DropOnFull :: bool
  ao_SendTimeout :: int
  ao_Reporter :: bool

datatype engine_error = CompilePattern string

definition New_Engine :: "unicode \<Rightarrow> regexp_engine \<Rightarrow> AlertOptions \<Rightarrow> engine_error + Engine" where
  "New_Engine U rx opts =
     (let initial0 = (if ao_RetryInitialBackoff opts < 0 then 0 else ao_RetryInitialBackoff opts);
          initial = (if 0 < ao_RetryMaxBackoff opts \<and> ao_RetryMaxBackoff opts < initial0
                     then ao_RetryMaxBackoff opts else initial0)
      in case filter (\<lambda>p. \<not> rx_compiles rx (''(?i)'' @ p)) (ao_Patterns opts) of
           p # _ \<Rightarrow> Inl (CompilePattern p)
         | [] \<Rightarrow>
             Inr \<lparr>en_channels = ao_Channels opts,
                  en_commands = set (map (\<lambda>c. ToUpper U (TrimSpace c)) (ao_Commands opts)),
                  en_patterns = map (\<lambda>p. ''(?i)'' @ p) (ao_Patterns opts),
                  en_ignoredIPs = set (ao_IgnoredSourceIPs opts),
                  en_rateLimit = ao_RateLimitEnabled opts, en_rateWindow = ao_RateWindow opts,
                  en_rateMaxAlerts = ao_RateMaxAlerts opts,
                  en_retryMax = (if ao_RetryMaxAttempts opts \<le> 0 then 1 else ao_RetryMaxAttempts opts),
                  en_retryInitialBackoff = initial, en_retryMaxBackoff = ao_RetryMaxBackoff opts,
                  en_rates = (\<lambda>_. None),
                  en_in = make_chan (nat (if ao_BufferSize opts \<le> 0 then 1024 else ao_BufferSize opts)),
                  en_rep = ao_Reporter opts,
                  en_timeout = (if ao_SendTimeout opts \<le> 0 then 10 * Second else ao_SendTimeout opts),
                  en_drop = ao_DropOnFull opts, en_dropped = 0\<rparr>)"

text \<open>The calls of the optional reporter methods.\<close>

abbreviation recordRetry :: "Engine \<Rightarrow> string \<Rightarrow> effect list" where
  "recordRetry e channel \<equiv> to_sink (en_rep e) [CAlertRetry channel]"

abbreviation recordDropped :: "Engine \<Rightarrow> effect list" where
  "recordDropped e \<equiv> to_sink (en_rep e) [CAlertDropped]"

abbreviation recordRateLimited :: "Engine \<Rightarrow> string \<Rightarrow> effect list" where
  "recordRateLimited e command \<equiv> to_sink (en_rep e) [CAlertRateLimited command]"

abbreviation recordSendDuration :: "Engine \<Rightarrow> string \<Rightarrow> int \<Rightarrow> effect list" where
  "recordSendDuration e channel d \<equiv> to_sink (en_rep e) [CAlertSend channel d]"

abbreviation recordChannelFailing :: "Engine \<Rightarrow> string \<Rightarrow> bool \<Rightarrow> effect list" where
  "recordChannelFailing e channel failing \<equiv> to_sink (en_rep e) [CAlertChannelFailing channel failing]"

definition Engine_Submit :: "Engine \<Rightarrow> Event \<Rightarrow> (Engine \<times> effect list) option" where
  "Engine_Submit e ev =
     (if en_drop e then
        (case ch_send (en_in e) ev of
           Some q \<Rightarrow> Some (e\<lparr>en_in := q\<rparr>, [])
         | None \<Rightarrow> Some (e\<lparr>en_dropped := en_dropped e + 1\<rparr>, recordDropped e))
      else
        (case ch_send (en_in e) ev of
           Some q \<Rightarrow> Some (e\<lparr>en_in := q\<rparr>, [])
         | None \<Rightarrow> None))"

definition Engine_QueueDepth :: "Engine \<Rightarrow> nat" where
  "Engine_QueueDepth e = length (ch_buf (en_in e))"

definition Engine_QueueCapacity :: "Engine \<Rightarrow> nat" where
  "Engine_QueueCapacity e = ch_cap (en_in e)"

text \<open>\<^verbatim>\<open>match\<close>: the reason, or \<open>None\<close>.\<close>

definition match_rule :: "regexp_engine \<Rightarrow> Engine \<Rightarrow> Event \<Rightarrow> string option" where
  "match_rule rx e ev =
     (if ev_Command ev \<in> en_commands e then Some (''suspicious command: '' @ FullCommand ev)
      else map_option (\<lambda>p. ''pattern match: '' @ p)
             (find (\<lambda>p. rx_match rx p (CommandLine ev)) (en_patterns e)))"

definition rate_key :: "Event \<Rightarrow> string" where
  "rate_key ev = ev_Command ev @ ''|'' @ src_IP (ev_Source ev)"

definition rateLimitAllow :: "int \<Rightarrow> Event \<Rightarrow> Engine \<Rightarrow> bool \<times> Engine" where
  "rateLimitAllow now ev e =
     (if \<not> en_rateLimit e \<or> en_rateMaxAlerts e \<le> 0 \<or> en_rateWindow e \<le> 0 then (True, e)
      else
        let key = rate_key ev;
            fresh = (True, e\<lparr>en_rates := (en_rates e)(key := Some \<lparr>b_windowStart = now, b_count = 1\<rparr>)\<rparr>)
        in case en_rates e key of
             None \<Rightarrow> fresh
           | Some b \<Rightarrow>
               if now - b_windowStart b > en_rateWindow e then fresh
               else if b_count b \<ge> en_rateMaxAlerts e then (False, e)
               else (True, e\<lparr>en_rates := (en_rates e)(key := Some (b\<lparr>b_count := b_count b + 1\<rparr>))\<rparr>))"

definition nextBackoff :: "int \<Rightarrow> int \<Rightarrow> int" where
  "nextBackoff cur maxBackoff =
     (let next = wrap64 (cur * 2) in
      if 0 < maxBackoff \<and> maxBackoff < next then maxBackoff
      else if maxBackoff = 0 \<and> Minute < next then Minute
      else next)"

text \<open>
  \<^verbatim>\<open>sleepWithContext\<close> returns false when the context ends; a positive duration is slept,
  at least in part.
\<close>

definition sleepWithContext :: "bool \<Rightarrow> int \<Rightarrow> bool \<times> effect list" where
  "sleepWithContext ctx_done d = (\<not> ctx_done, if d \<le> 0 then [] else [Sleep d])"

text \<open>
  The retry loop of \<^verbatim>\<open>sendOne\<close> from attempt number \<open>attempt\<close> on, where \<open>env k\<close> is what
  attempt \<open>k\<close> meets. The result is the attempts made, the last error and the effects.
\<close>

function send_loop ::
  "Engine \<Rightarrow> Channel \<Rightarrow> Alert \<Rightarrow> Event \<Rightarrow> (int \<Rightarrow> send_env) \<Rightarrow> int \<Rightarrow> int \<Rightarrow>
     int \<times> send_error option \<times> effect list" where
  "send_loop e ch a ev env attempt backoff =
     (let name = Channel_Name ch;
          sent = ChannelSend name ev # recordSendDuration e name (se_took (env attempt))
      in case Channel_Send (env attempt) ch a of
           None \<Rightarrow>
             (attempt, None,
              sent @ to_sink (en_rep e) [CAlertSent name (ev_Command ev), CAlertChannelFailing name False])
         | Some err \<Rightarrow>
             let failed = sent @ to_sink (en_rep e) [CAlertError name] in
             if en_retryMax e \<le> attempt then (attempt, Some err, failed)
             else
               let (go_on, slept) = sleepWithContext (se_ctx_done (env attempt)) backoff in
               if \<not> go_on then (attempt, Some RetryAborted, failed @ slept)
               else
                 let (n, res, es) =
                   send_loop e ch a ev env (attempt + 1) (nextBackoff backoff (en_retryMaxBackoff e))
                 in (n, res, failed @ slept @ recordRetry e name @ es))"
  by pat_completeness auto
termination
  by (relation "measure (\<lambda>(e, _, _, _, _, attempt, _). nat (en_retryMax e - attempt))") auto

declare send_loop.simps [simp del]

definition sendOne ::
  "Engine \<Rightarrow> Channel \<Rightarrow> Alert \<Rightarrow> Event \<Rightarrow> (int \<Rightarrow> send_env) \<Rightarrow> send_error option \<times> effect list" where
  "sendOne e ch a ev env =
     (case send_loop e ch a ev env 1 (en_retryInitialBackoff e) of
        (n, None, es) \<Rightarrow> (None, es)
      | (n, Some err, es) \<Rightarrow>
          (Some err,
           es @ recordChannelFailing e (Channel_Name ch) True @
           [Report [(''channel'', Channel_Name ch), (''attempts'', Itoa n), (''max_attempts'', Itoa (en_retryMax e)),
                    (''command'', FullCommand ev), (''source_ip'', src_IP (ev_Source ev)),
                    (''db'', Itoa (ev_DB ev)), (''reason'', al_Reason a)]]))"

fun dispatch_channels ::
  "Engine \<Rightarrow> Alert \<Rightarrow> Event \<Rightarrow> (nat \<Rightarrow> int \<Rightarrow> send_env) \<Rightarrow> nat \<Rightarrow> Channel list \<Rightarrow> effect list" where
  "dispatch_channels e a ev env i [] = []"
| "dispatch_channels e a ev env i (ch # chs) =
     snd (sendOne e ch a ev (env i)) @ dispatch_channels e a ev env (Suc i) chs"

definition handle ::
  "regexp_engine \<Rightarrow> int \<Rightarrow> (nat \<Rightarrow> int \<Rightarrow> send_env) \<Rightarrow> Event \<Rightarrow> Engine \<Rightarrow> Engine \<times> effect list" where
  "handle rx now env ev e =
     (case match_rule rx e ev of
        None \<Rightarrow> (e, [])
      | Some reason \<Rightarrow>
          if src_IP (ev_Source ev) \<in> en_ignoredIPs e then (e, [])
          else
            let seen = to_sink (en_rep e) [CSuspicious (ev_Command ev) (src_IP (ev_Source ev))];
                (allowed, e1) = rateLimitAllow now ev e
            in if \<not> allowed then (e1, seen @ recordRateLimited e (ev_Command ev))
               else
                 let a = \<lparr>al_Timestamp = ev_Timestamp ev, al_Command = FullCommand ev,
                          al_Source = src_IP (ev_Source ev) @ '':'' @ src_Port (ev_Source ev),
                          al_DB = ev_DB ev, al_Reason = reason, al_Event = ev\<rparr>
                 in (e1, seen @ dispatch_channels e1 a ev env 0 (en_channels e1)))"

definition closeAll :: "Engine \<Rightarrow> effect list" where
  "closeAll e = map (\<lambda>ch. ChannelClose (Channel_Name ch)) (en_channels e)"

text \<open>
  \<^verbatim>\<open>Run\<close> as steps: take an event and handle it, or see the context cancelled and close the
  channels. Events still queued then are not handled.
\<close>

datatype e_action = EHandle int "nat \<Rightarrow> int \<Rightarrow> send_env" | ECancel

fun engine_step :: "regexp_engine \<Rightarrow> e_action \<Rightarrow> bool \<Rightarrow> Engine \<Rightarrow> (bool \<times> Engine \<times> effect list) option" where
  "engine_step rx (EHandle now env) running e =
     (if running then
        (case ch_recv (en_in e) of
           None \<Rightarrow> None
         | Some (ev, q) \<Rightarrow> Some (True, handle rx now env ev (e\<lparr>en_in := q\<rparr>)))
      else None)"
| "engine_step rx ECancel running e = (if running then Some (False, e, closeAll e) else None)"

section \<open>Facts about sending\<close>

lemma sleep_effects [simp]:
  "metric_calls (snd (sleepWithContext c d)) = []" "sends (snd (sleepWithContext c d)) = []"
  "reports (snd (sleepWithContext c d)) = []"
  by (simp_all add: sleepWithContext_def)

fun failing_calls :: "reg_call list \<Rightarrow> (string \<times> bool) list" where
  "failing_calls [] = []"
| "failing_calls (CAlertChannelFailing ch b # cs) = (ch, b) # failing_calls cs"
| "failing_calls (c # cs) = failing_calls cs"

lemma failing_calls_append [simp]: "failing_calls (a @ b) = failing_calls a @ failing_calls b"
  by (induction a rule: failing_calls.induct) simp_all

text \<open>
  What the retry loop does when it starts at attempt \<open>k\<close>: it makes the attempts \<open>k\<close> to \<open>n\<close>, all
  failing but perhaps the last, and counts them.
\<close>

definition loop_account ::
  "Engine \<Rightarrow> Channel \<Rightarrow> Alert \<Rightarrow> Event \<Rightarrow> (int \<Rightarrow> send_env) \<Rightarrow> int \<Rightarrow> int \<Rightarrow> send_error option \<Rightarrow> effect list \<Rightarrow> bool" where
  "loop_account e ch a ev env k n res es \<longleftrightarrow>
     k \<le> n \<and> n \<le> en_retryMax e \<and>
     sends es = replicate (nat (n - k + 1)) (Channel_Name ch, ev) \<and>
     (\<forall>i. k \<le> i \<and> i < n \<longrightarrow> Channel_Send (env i) ch a \<noteq> None) \<and>
     (res = None \<longleftrightarrow> Channel_Send (env n) ch a = None) \<and>
     reports es = [] \<and>
     (en_rep e \<longrightarrow>
        count_list (metric_calls es) (CAlertError (Channel_Name ch)) = nat (n - k + 1) - (if res = None then 1 else 0) \<and>
        count_list (metric_calls es) (CAlertRetry (Channel_Name ch)) = nat (n - k) \<and>
        count_list (metric_calls es) (CAlertSent (Channel_Name ch) (ev_Command ev)) = (if res = None then 1 else 0) \<and>
        failing_calls (metric_calls es) = (if res = None then [(Channel_Name ch, False)] else []))"

abbreviation failed_attempt :: "Engine \<Rightarrow> Channel \<Rightarrow> Event \<Rightarrow> int \<Rightarrow> effect list" where
  "failed_attempt e ch ev took \<equiv>
     ChannelSend (Channel_Name ch) ev # to_sink (en_rep e) [CAlertSend (Channel_Name ch) took] @
     to_sink (en_rep e) [CAlertError (Channel_Name ch)]"

lemma send_loop_ok:
  "Channel_Send (env k) ch a = None \<Longrightarrow> send_loop e ch a ev env k backoff =
     (k, None, ChannelSend (Channel_Name ch) ev #
        to_sink (en_rep e) [CAlertSend (Channel_Name ch) (se_took (env k))] @
        to_sink (en_rep e) [CAlertSent (Channel_Name ch) (ev_Command ev), CAlertChannelFailing (Channel_Name ch) False])"
  by (subst send_loop.simps) (simp add: Let_def)

lemma send_loop_stop:
  "Channel_Send (env k) ch a = Some err \<Longrightarrow> en_retryMax e \<le> k \<or> se_ctx_done (env k) \<Longrightarrow>
   send_loop e ch a ev env k backoff =
     (k, Some (if en_retryMax e \<le> k then err else RetryAborted), failed_attempt e ch ev (se_took (env k)) @
        (if en_retryMax e \<le> k then [] else snd (sleepWithContext True backoff)))"
  by (subst send_loop.simps) (auto simp: Let_def sleepWithContext_def)

lemma send_loop_retry:
  "Channel_Send (env k) ch a = Some err \<Longrightarrow> \<not> (en_retryMax e \<le> k \<or> se_ctx_done (env k)) \<Longrightarrow>
   send_loop e ch a ev env (k + 1) (nextBackoff backoff (en_retryMaxBackoff e)) = (n, res, es) \<Longrightarrow>
   send_loop e ch a ev env k backoff =
     (n, res, failed_attempt e ch ev (se_took (env k)) @ snd (sleepWithContext False backoff) @
        to_sink (en_rep e) [CAlertRetry (Channel_Name ch)] @ es)"
  by (subst send_loop.simps) (simp add: Let_def sleepWithContext_def)

lemma loop_account_retry:
  assumes "loop_account e ch a ev env (k + 1) n res es" "Channel_Send (env k) ch a = Some err"
  shows "loop_account e ch a ev env k n res
    (failed_attempt e ch ev (se_took (env k)) @ snd (sleepWithContext False backoff) @
     to_sink (en_rep e) [CAlertRetry (Channel_Name ch)] @ es)"
proof -
  have n: "nat (n - k + 1) = Suc (nat (n - (k + 1) + 1))" "nat (n - k) = Suc (nat (n - (k + 1)))" "k \<le> n"
    using assms(1) by (auto simp: loop_account_def)
  have "Channel_Send (env i) ch a \<noteq> None" if "k \<le> i" "i < n" for i
    using that assms by (cases "i = k") (auto simp: loop_account_def)
  then show ?thesis using assms(1) n unfolding loop_account_def by (auto simp: Suc_diff_le)
qed

lemma send_loop_account:
  "send_loop e ch a ev env k backoff = (n, res, es) \<Longrightarrow> k \<le> en_retryMax e \<Longrightarrow>
     loop_account e ch a ev env k n res es"
proof (induction "nat (en_retryMax e - k)" arbitrary: k backoff n res es)
  case (0 k)
  then show ?case
    by (cases "Channel_Send (env k) ch a") (auto simp: send_loop_ok send_loop_stop loop_account_def)
next
  case (Suc m k)
  show ?case
  proof (cases "Channel_Send (env k) ch a")
    case None
    with Suc.prems show ?thesis by (auto simp: send_loop_ok loop_account_def)
  next
    case (Some err)
    show ?thesis
    proof (cases "se_ctx_done (env k)")
      case True
      with Suc.prems Some show ?thesis by (auto simp: send_loop_stop loop_account_def)
    next
      case False
      have more: "\<not> (en_retryMax e \<le> k \<or> se_ctx_done (env k))" using False Suc.hyps(2) by auto
      obtain n1 res1 es1 where r:
        "send_loop e ch a ev env (k + 1) (nextBackoff backoff (en_retryMaxBackoff e)) = (n1, res1, es1)"
        by (metis prod_cases3)
      have "loop_account e ch a ev env (k + 1) n1 res1 es1"
        using Suc.hyps(1) [OF _ r] Suc.hyps(2) more by simp
      from loop_account_retry [OF this Some, of backoff] show ?thesis
        using Suc.prems(1) send_loop_retry [OF Some more r] by simp
    qed
  qed
qed

text \<open>The pauses of the retry loop stay within the cap.\<close>

lemma nextBackoff_bounds:
  assumes "0 \<le> cur" "cur \<le> (if mx = 0 then 2 ^ 61 else mx)" "0 \<le> mx" "mx < 2 ^ 62"
  shows "0 \<le> nextBackoff cur mx \<and> nextBackoff cur mx \<le> (if mx = 0 then Minute else mx)"
proof -
  have "wrap64 (cur * 2) = cur * 2" using assms by (intro wrap64_id) (auto split: if_splits)
  with assms show ?thesis by (auto simp: nextBackoff_def Let_def)
qed

lemma send_loop_sleeps:
  "send_loop e ch a ev env k backoff = (n, res, es) \<Longrightarrow> 0 < en_retryMaxBackoff e \<Longrightarrow>
     en_retryMaxBackoff e < 2 ^ 62 \<Longrightarrow> 0 \<le> backoff \<Longrightarrow> backoff \<le> en_retryMaxBackoff e \<Longrightarrow>
     \<forall>d\<in>set (sleeps es). 0 < d \<and> d \<le> en_retryMaxBackoff e"
proof (induction "nat (en_retryMax e - k)" arbitrary: k backoff n res es)
  case (0 k)
  then show ?case
    by (cases "Channel_Send (env k) ch a") (auto simp: send_loop_ok send_loop_stop)
next
  case (Suc m k)
  show ?case
  proof (cases "Channel_Send (env k) ch a")
    case None
    with Suc.prems show ?thesis by (auto simp: send_loop_ok)
  next
    case (Some err)
    show ?thesis
    proof (cases "se_ctx_done (env k)")
      case True
      with Suc.prems Some show ?thesis by (auto simp: send_loop_stop sleepWithContext_def split: if_splits)
    next
      case False
      have more: "\<not> (en_retryMax e \<le> k \<or> se_ctx_done (env k))" using False Suc.hyps(2) by auto
      obtain n1 res1 es1 where r:
        "send_loop e ch a ev env (k + 1) (nextBackoff backoff (en_retryMaxBackoff e)) = (n1, res1, es1)"
        by (metis prod_cases3)
      have m: "m = nat (en_retryMax e - (k + 1))" using Suc.hyps(2) by simp
      have b: "0 \<le> nextBackoff backoff (en_retryMaxBackoff e)"
        "nextBackoff backoff (en_retryMaxBackoff e) \<le> en_retryMaxBackoff e"
        using nextBackoff_bounds [of backoff "en_retryMaxBackoff e"] Suc.prems(2-5) by simp_all
      have "\<forall>d\<in>set (sleeps es1). 0 < d \<and> d \<le> en_retryMaxBackoff e"
        by (rule Suc.hyps(1) [OF m r Suc.prems(2,3) b])
      with Suc.prems send_loop_retry [OF Some more r] show ?thesis
        by (auto simp: sleepWithContext_def split: if_splits)
    qed
  qed
qed

section \<open>Properties of sending\<close>

text \<open>
  C4: One alert to one channel is bounded and accounted for. With \<open>retryMax \<ge> 1\<close> the channel is
  called between one and \<open>retryMax\<close> times, each time with the same alert, and never again after a
  success; every failed attempt counts as an error, every further attempt as a retry; the alert
  counts as sent, and the channel as healthy, exactly when the last attempt succeeded; otherwise
  the channel is marked failing and exactly one report is made, after the last attempt.
\<close>

theorem sendOne_accounting:
  assumes "sendOne e ch a ev env = (res, es)" and "1 \<le> en_retryMax e" and "en_rep e"
  shows "\<exists>n. 1 \<le> n \<and> n \<le> en_retryMax e \<and>
    sends es = replicate (nat n) (Channel_Name ch, ev) \<and>
    (\<forall>i. 1 \<le> i \<and> i < n \<longrightarrow> Channel_Send (env i) ch a \<noteq> None) \<and>
    (res = None \<longleftrightarrow> Channel_Send (env n) ch a = None) \<and>
    count_list (metric_calls es) (CAlertError (Channel_Name ch)) = nat n - (if res = None then 1 else 0) \<and>
    count_list (metric_calls es) (CAlertRetry (Channel_Name ch)) = nat (n - 1) \<and>
    count_list (metric_calls es) (CAlertSent (Channel_Name ch) (ev_Command ev)) = (if res = None then 1 else 0) \<and>
    failing_calls (metric_calls es) = [(Channel_Name ch, res \<noteq> None)] \<and>
    length (reports es) = (if res = None then 0 else 1)"
proof -
  obtain n r es1 where l: "send_loop e ch a ev env 1 (en_retryInitialBackoff e) = (n, r, es1)"
    by (metis prod_cases3)
  have "loop_account e ch a ev env 1 n r es1" by (rule send_loop_account [OF l assms(2)])
  with assms(1,3) l show ?thesis
    by (intro exI [of _ n]) (auto simp: sendOne_def loop_account_def split: option.splits)
qed

definition sample_send :: "int \<Rightarrow> send_env" where
  "sample_send code = \<lparr>se_request_ok = True, se_http = HttpStatus code, se_push = (\<lambda>_. None), se_took = 0,
     se_ctx_done = False\<rparr>"

definition sample_webhook :: Channel where
  "sample_webhook = Webhook \<lparr>wh_url = ''http://h/'', wh_method = ''POST'', wh_headers = [], wh_timeout = 5 * Second\<rparr>"

definition sample_alert_opts :: AlertOptions where
  "sample_alert_opts = \<lparr>ao_Channels = [sample_webhook], ao_Commands = [''flushall''], ao_Patterns = [],
     ao_IgnoredSourceIPs = [], ao_RateLimitEnabled = True, ao_RateWindow = Minute, ao_RateMaxAlerts = 1,
     ao_RetryMaxAttempts = 3, ao_RetryInitialBackoff = Second, ao_RetryMaxBackoff = 2 * Second,
     ao_BufferSize = 1, ao_DropOnFull = True, ao_SendTimeout = 0, ao_Reporter = True\<rparr>"

definition sample_regexp :: regexp_engine where
  "sample_regexp = \<lparr>rx_compiles = (\<lambda>_. True), rx_match = (\<lambda>p s. False)\<rparr>"

definition sample_engine :: Engine where
  "sample_engine = projr (New_Engine ascii_only sample_regexp sample_alert_opts)"

definition sample_alert :: Alert where
  "sample_alert = \<lparr>al_Timestamp = \<lparr>unix_sec = 1700000000, nanosec = 0\<rparr>, al_Command = ''FLUSHALL'',
     al_Source = ''127.0.0.1:1234'', al_DB = 0, al_Reason = [], al_Event = sample_event ''FLUSHALL'' []\<rparr>"

lemma sample_engine_simps:
  "en_retryMax sample_engine = 3" "en_rep sample_engine" "en_rateLimit sample_engine"
  "en_rateWindow sample_engine = Minute" "en_rateMaxAlerts sample_engine = 1"
  "en_retryInitialBackoff sample_engine = Second" "en_retryMaxBackoff sample_engine = 2 * Second"
  "en_channels sample_engine = [sample_webhook]" "en_rates sample_engine = (\<lambda>_. None)"
  by (simp_all add: sample_engine_def New_Engine_def sample_alert_opts_def)

theorem sendOne_accounting_witness:
  "\<exists>res es n. sendOne sample_engine sample_webhook sample_alert (sample_event ''FLUSHALL'' [])
       (\<lambda>k. sample_send (if k < 2 then 503 else 200)) = (res, es) \<and> 1 \<le> n \<and> n \<le> 3 \<and>
     sends es = replicate (nat n) (''webhook'', sample_event ''FLUSHALL'' []) \<and> length (reports es) \<le> 1"
proof -
  obtain res es where r: "sendOne sample_engine sample_webhook sample_alert (sample_event ''FLUSHALL'' [])
       (\<lambda>k. sample_send (if k < 2 then 503 else 200)) = (res, es)" by (meson surj_pair)
  have "Channel_Name sample_webhook = ''webhook''" by (simp add: sample_webhook_def)
  moreover obtain n where "1 \<le> n" "n \<le> 3"
    "sends es = replicate (nat n) (Channel_Name sample_webhook, sample_event ''FLUSHALL'' [])"
    "length (reports es) = (if res = None then 0 else 1)"
    using sendOne_accounting [OF r _ sample_engine_simps(2), unfolded sample_engine_simps(1)] by auto
  ultimately show ?thesis using r by (intro exI [of _ res] exI [of _ es] exI [of _ n]) simp
qed

text \<open>
  Retries pause for bounded times. For an engine built by \<^verbatim>\<open>New\<close> with a positive cap below
  \<open>2 ^ 62\<close> nanoseconds, every pause between attempts is positive and at most the cap, and there
  are fewer pauses than attempts allowed.
\<close>

theorem sendOne_pauses:
  assumes "New_Engine U rx opts = Inr e" "0 < ao_RetryMaxBackoff opts" "ao_RetryMaxBackoff opts < 2 ^ 62"
    and "sendOne e ch a ev env = (res, es)"
  shows "\<forall>d\<in>set (sleeps es). 0 < d \<and> d \<le> ao_RetryMaxBackoff opts"
proof -
  obtain n r es1 where l: "send_loop e ch a ev env 1 (en_retryInitialBackoff e) = (n, r, es1)"
    by (metis prod_cases3)
  have e: "en_retryMaxBackoff e = ao_RetryMaxBackoff opts" "0 \<le> en_retryInitialBackoff e"
    "en_retryInitialBackoff e \<le> ao_RetryMaxBackoff opts"
    using assms(1,2) by (auto simp: New_Engine_def Let_def split: list.splits if_splits)
  have "sleeps es = sleeps es1" using assms(4) l by (auto simp: sendOne_def split: option.splits)
  with send_loop_sleeps [OF l] e assms(2,3) show ?thesis by simp
qed

theorem sendOne_pauses_witness:
  "\<exists>res es. sendOne sample_engine sample_webhook sample_alert (sample_event ''FLUSHALL'' [])
       (\<lambda>k. sample_send 503) = (res, es) \<and> (\<forall>d\<in>set (sleeps es). 0 < d \<and> d \<le> 2 * Second)"
proof -
  obtain res es where r: "sendOne sample_engine sample_webhook sample_alert (sample_event ''FLUSHALL'' [])
       (\<lambda>k. sample_send 503) = (res, es)" by (meson surj_pair)
  have "New_Engine ascii_only sample_regexp sample_alert_opts = Inr sample_engine"
    by (simp add: sample_engine_def New_Engine_def sample_alert_opts_def)
  from sendOne_pauses [OF this _ _ r] r show ?thesis by (auto simp: sample_alert_opts_def)
qed

section \<open>The rate limit\<close>

text \<open>
  The limiter as a machine for one key: \<open>bucket_step\<close> is the specification that
  \<^verbatim>\<open>rateLimitAllow\<close> implements for the event's key, all other keys being left alone.
\<close>

definition bucket_step :: "int \<Rightarrow> int \<Rightarrow> int \<Rightarrow> bucket option \<Rightarrow> bool \<times> bucket option" where
  "bucket_step window mx now b =
     (case b of
        None \<Rightarrow> (True, Some \<lparr>b_windowStart = now, b_count = 1\<rparr>)
      | Some k \<Rightarrow>
          if window < now - b_windowStart k then (True, Some \<lparr>b_windowStart = now, b_count = 1\<rparr>)
          else if mx \<le> b_count k then (False, b)
          else (True, Some (k\<lparr>b_count := b_count k + 1\<rparr>)))"

definition limiter_on :: "Engine \<Rightarrow> bool" where
  "limiter_on e \<longleftrightarrow> en_rateLimit e \<and> 0 < en_rateMaxAlerts e \<and> 0 < en_rateWindow e"

lemma rateLimitAllow_refines:
  assumes "limiter_on e" "rateLimitAllow now ev e = (ok, e')"
  shows "bucket_step (en_rateWindow e) (en_rateMaxAlerts e) now (en_rates e (rate_key ev)) =
      (ok, en_rates e' (rate_key ev))"
    and "e' = e\<lparr>en_rates := (en_rates e)(rate_key ev := en_rates e' (rate_key ev))\<rparr>"
  using assms
  by (auto simp: limiter_on_def rateLimitAllow_def bucket_step_def Let_def fun_upd_idem
      split: option.splits if_splits)

text \<open>A sequence of decisions, with the time of each, and the times at which a key was let through.\<close>

fun rate_run :: "(int \<times> Event) list \<Rightarrow> Engine \<Rightarrow> bool list" where
  "rate_run [] e = []"
| "rate_run ((now, ev) # calls) e = (let (ok, e') = rateLimitAllow now ev e in ok # rate_run calls e')"

definition allowed_times :: "string \<Rightarrow> (int \<times> Event) list \<Rightarrow> Engine \<Rightarrow> int list" where
  "allowed_times k calls e =
     map (\<lambda>((now, ev), ok). now) (filter (\<lambda>((now, ev), ok). ok \<and> rate_key ev = k) (zip calls (rate_run calls e)))"

fun bucket_run :: "int \<Rightarrow> int \<Rightarrow> int list \<Rightarrow> bucket option \<Rightarrow> int list" where
  "bucket_run w mx [] b = []"
| "bucket_run w mx (now # ts) b =
     (let (ok, b') = bucket_step w mx now b in (if ok then [now] else []) @ bucket_run w mx ts b')"

lemma allowed_times_bucket_run:
  "limiter_on e \<Longrightarrow> allowed_times k calls e =
     bucket_run (en_rateWindow e) (en_rateMaxAlerts e) (map fst (filter (\<lambda>(now, ev). rate_key ev = k) calls))
       (en_rates e k)"
proof (induction calls arbitrary: e)
  case Nil
  then show ?case by (simp add: allowed_times_def)
next
  case (Cons c calls)
  obtain now ev where c: "c = (now, ev)" by (cases c)
  obtain ok e' where r: "rateLimitAllow now ev e = (ok, e')" by (meson surj_pair)
  note ref = rateLimitAllow_refines [OF Cons.prems r]
  have e': "limiter_on e'" "en_rateWindow e' = en_rateWindow e" "en_rateMaxAlerts e' = en_rateMaxAlerts e"
    "k \<noteq> rate_key ev \<Longrightarrow> en_rates e' k = en_rates e k"
    using Cons.prems by (subst ref(2), simp add: limiter_on_def)+
  have "allowed_times k (c # calls) e = (if ok \<and> rate_key ev = k then [now] else []) @ allowed_times k calls e'"
    by (simp add: allowed_times_def c r)
  with Cons.IH [OF e'(1)] e' ref(1) show ?case by (auto simp: c)
qed

definition in_span :: "int \<Rightarrow> int \<Rightarrow> int list \<Rightarrow> int" where
  "in_span t0 w ts = int (length (filter (\<lambda>x. t0 \<le> x \<and> x \<le> t0 + w) ts))"

lemma in_span_simps [simp]:
  "in_span t0 w [] = 0"
  "in_span t0 w (x # xs) = (if t0 \<le> x \<and> x \<le> t0 + w then 1 else 0) + in_span t0 w xs"
  by (simp_all add: in_span_def)

lemma bucket_run_subset: "set (bucket_run w mx ts b) \<subseteq> set ts"
proof (induction ts arbitrary: b)
  case (Cons x ts)
  obtain ok b' where "bucket_step w mx x b = (ok, b')" by (meson surj_pair)
  with Cons.IH [of b'] show ?case by auto
qed simp

lemma in_span_late:
  assumes "\<forall>x\<in>set ts. t0 + w < x"
  shows "in_span t0 w (bucket_run w mx ts b) = 0"
  using assms bucket_run_subset [of w mx ts b] by (force simp: in_span_def filter_empty_conv)

lemma bucket_run_current:
  "sorted ts \<Longrightarrow> t0 \<le> s \<Longrightarrow> c \<le> mx \<Longrightarrow> in_span t0 w (bucket_run w mx ts (Some \<lparr>b_windowStart = s, b_count = c\<rparr>)) \<le> mx - c"
proof (induction ts arbitrary: c)
  case Nil
  then show ?case by simp
next
  case (Cons x ts)
  show ?case
  proof (cases "t0 + w < x")
    case True
    with Cons.prems(1) have "\<forall>y\<in>set (x # ts). t0 + w < y" by auto
    from in_span_late [OF this] Cons.prems(3) show ?thesis by simp
  next
    case False
    then have "\<not> w < x - s" using Cons.prems(2) by simp
    with Cons.IH [of c] Cons.IH [of "c + 1"] Cons.prems show ?thesis by (auto simp: bucket_step_def)
  qed
qed

lemma bucket_run_inside:
  "sorted ts \<Longrightarrow> \<forall>x\<in>set ts. t0 \<le> x \<Longrightarrow> 1 \<le> c \<Longrightarrow> c \<le> mx \<Longrightarrow>
     in_span t0 w (bucket_run w mx ts (Some \<lparr>b_windowStart = s, b_count = c\<rparr>)) \<le> 2 * mx - c"
proof (induction ts arbitrary: c)
  case Nil
  then show ?case by simp
next
  case (Cons x ts)
  have fresh: "in_span t0 w (bucket_run w mx ts (Some \<lparr>b_windowStart = x, b_count = 1\<rparr>)) \<le> mx - 1"
    using bucket_run_current [of ts t0 x 1 mx w] Cons.prems by simp
  show ?case
    using Cons.IH [of c] Cons.IH [of "c + 1"] fresh Cons.prems by (auto simp: bucket_step_def)
qed

lemma bucket_run_span:
  "sorted ts \<Longrightarrow> 0 < mx \<Longrightarrow> (case b of None \<Rightarrow> True | Some k \<Rightarrow> 1 \<le> b_count k \<and> b_count k \<le> mx) \<Longrightarrow>
     in_span t0 w (bucket_run w mx ts b) \<le> 2 * mx"
proof (induction ts arbitrary: b)
  case Nil
  then show ?case by simp
next
  case (Cons x ts)
  show ?case
  proof (cases "t0 \<le> x")
    case False
    obtain ok b' where s: "bucket_step w mx x b = (ok, b')" by (meson surj_pair)
    have "case b' of None \<Rightarrow> True | Some k \<Rightarrow> 1 \<le> b_count k \<and> b_count k \<le> mx"
      using s Cons.prems by (auto simp: bucket_step_def split: option.splits if_splits)
    from Cons.IH [OF _ Cons.prems(2) this] False Cons.prems(1) s show ?thesis by auto
  next
    case True
    then have ge: "\<forall>y\<in>set (x # ts). t0 \<le> y" using Cons.prems(1) by auto
    show ?thesis
    proof (cases b)
      case None
      have "in_span t0 w (bucket_run w mx ts (Some \<lparr>b_windowStart = x, b_count = 1\<rparr>)) \<le> mx - 1"
        using bucket_run_current [of ts t0 x 1 mx w] Cons.prems True by simp
      with None Cons.prems(2) show ?thesis by (simp add: bucket_step_def)
    next
      case (Some k)
      obtain s c where k: "k = \<lparr>b_windowStart = s, b_count = c\<rparr>" by (cases k)
      from bucket_run_inside [OF Cons.prems(1) ge, of c mx w s] Cons.prems(3) Some k show ?thesis by simp
    qed
  qed
qed

text \<open>
  C22: The rate limit holds over every span of time, not only over its own windows. With the limiter
  on and a fresh engine, whatever the sequence of suspicious events (at times that do not decrease)
  and whatever other commands and sources are mixed in, at most twice \<open>RateMaxAlerts\<close> alerts for
  one command and source are let through within any span as long as the window.
\<close>

theorem rate_limit_span:
  assumes "New_Engine U rx opts = Inr e" "ao_RateLimitEnabled opts" "0 < ao_RateMaxAlerts opts" "0 < ao_RateWindow opts"
    and "sorted (map fst calls)"
  shows "in_span t0 (ao_RateWindow opts) (allowed_times k calls e) \<le> 2 * ao_RateMaxAlerts opts"
proof -
  have e: "limiter_on e" "en_rateWindow e = ao_RateWindow opts" "en_rateMaxAlerts e = ao_RateMaxAlerts opts"
    "en_rates e k = None"
    using assms(1-4) by (auto simp: New_Engine_def limiter_on_def Let_def split: list.splits)
  have "sorted (map fst (filter (\<lambda>(now, ev). rate_key ev = k) calls))"
    using assms(5) by (intro sorted_filter)
  from bucket_run_span [OF this assms(3), of None t0 "ao_RateWindow opts"] show ?thesis
    using allowed_times_bucket_run [OF e(1), of k calls] e(2-4) by simp
qed

theorem rate_limit_span_witness:
  "in_span 0 Minute (allowed_times (rate_key (sample_event ''FLUSHALL'' []))
     [(0, sample_event ''FLUSHALL'' []), (Second, sample_event ''FLUSHALL'' []), (61 * Second, sample_event ''FLUSHALL'' [])]
     sample_engine) \<le> 2"
proof -
  have "New_Engine ascii_only sample_regexp sample_alert_opts = Inr sample_engine"
    by (simp add: sample_engine_def New_Engine_def sample_alert_opts_def)
  from rate_limit_span [OF this, of "[(0, sample_event ''FLUSHALL'' []), (Second, sample_event ''FLUSHALL'' []),
      (61 * Second, sample_event ''FLUSHALL'' [])]" 0 "rate_key (sample_event ''FLUSHALL'' [])"]
  show ?thesis by (simp add: sample_alert_opts_def)
qed

section \<open>Rules and dispatch\<close>

lemma sends_sendOne:
  assumes "1 \<le> en_retryMax e"
  shows "\<exists>n. 1 \<le> n \<and> n \<le> en_retryMax e \<and> sends (snd (sendOne e ch a ev env)) = replicate (nat n) (Channel_Name ch, ev)"
proof -
  obtain n r es where l: "send_loop e ch a ev env 1 (en_retryInitialBackoff e) = (n, r, es)" by (metis prod_cases3)
  have "loop_account e ch a ev env 1 n r es" by (rule send_loop_account [OF l assms])
  with l show ?thesis
    by (intro exI [of _ n]) (auto simp: sendOne_def loop_account_def split: option.splits)
qed

lemma sends_dispatch:
  assumes "1 \<le> en_retryMax e"
  shows "\<exists>ns. length ns = length chs \<and> (\<forall>n\<in>set ns. 1 \<le> n \<and> n \<le> nat (en_retryMax e)) \<and>
    sends (dispatch_channels e a ev env i chs) =
      concat (map2 (\<lambda>ch n. replicate n (Channel_Name ch, ev)) chs ns)"
proof (induction chs arbitrary: i)
  case Nil
  then show ?case by simp
next
  case (Cons ch chs)
  obtain ns where ns: "length ns = length chs" "\<forall>n\<in>set ns. 1 \<le> n \<and> n \<le> nat (en_retryMax e)"
    "sends (dispatch_channels e a ev env (Suc i) chs) =
       concat (map2 (\<lambda>ch n. replicate n (Channel_Name ch, ev)) chs ns)"
    using Cons.IH by blast
  obtain n where "1 \<le> n" "n \<le> en_retryMax e"
    "sends (snd (sendOne e ch a ev (env i))) = replicate (nat n) (Channel_Name ch, ev)"
    using sends_sendOne [OF assms] by blast
  with ns show ?case by (intro exI [of _ "nat n # ns"]) auto
qed

lemma rateLimitAllow_frame:
  "rateLimitAllow now ev e = (ok, e') \<Longrightarrow> en_channels e' = en_channels e \<and> en_retryMax e' = en_retryMax e"
  by (auto simp: rateLimitAllow_def Let_def split: option.splits if_splits)

lemma New_Engine_fields:
  assumes "New_Engine U rx opts = Inr e"
  shows "en_commands e = (\<lambda>c. ToUpper U (TrimSpace c)) ` set (ao_Commands opts)"
    "en_patterns e = map (\<lambda>p. ''(?i)'' @ p) (ao_Patterns opts)"
    "en_ignoredIPs e = set (ao_IgnoredSourceIPs opts)" "en_channels e = ao_Channels opts"
    "en_rep e = ao_Reporter opts" "1 \<le> en_retryMax e"
  using assms by (auto simp: New_Engine_def Let_def split: list.splits)

lemma match_rule_iff:
  "match_rule rx e ev \<noteq> None \<longleftrightarrow>
     ev_Command ev \<in> en_commands e \<or> (\<exists>p\<in>set (en_patterns e). rx_match rx p (CommandLine ev))"
  by (auto simp: match_rule_def find_None_iff simp del: not_None_eq)

text \<open>
  C23: An event raises an alert exactly when a rule matches it (its command is listed, in any
  case and with blanks around it, or a pattern matches its command line), its source is not
  ignored, and the rate limit lets it through; then every configured channel is tried, in order,
  whatever happened on the ones before. Otherwise no channel is called. A suspicious event from a
  source that is not ignored is counted whether or not the alert is sent.
\<close>

theorem handle_alerts:
  assumes "New_Engine U rx opts = Inr e0" and "e = e0\<lparr>en_rates := rates, en_in := q\<rparr>"
    and "handle rx now env ev e = (e', es)" and "ao_Reporter opts"
  shows "let suspicious = (ev_Command ev \<in> (\<lambda>c. ToUpper U (TrimSpace c)) ` set (ao_Commands opts) \<or>
            (\<exists>p\<in>set (ao_Patterns opts). rx_match rx (''(?i)'' @ p) (CommandLine ev))) \<and>
            src_IP (ev_Source ev) \<notin> set (ao_IgnoredSourceIPs opts);
          allowed = fst (rateLimitAllow now ev e)
      in (count_list (metric_calls es) (CSuspicious (ev_Command ev) (src_IP (ev_Source ev))) > 0 \<longleftrightarrow> suspicious) \<and>
         (\<not> (suspicious \<and> allowed) \<longrightarrow> sends es = []) \<and>
         (suspicious \<and> allowed \<longrightarrow> (\<exists>ns. length ns = length (ao_Channels opts) \<and>
            (\<forall>n\<in>set ns. 1 \<le> n \<and> n \<le> nat (en_retryMax e)) \<and>
            sends es = concat (map2 (\<lambda>ch n. replicate n (Channel_Name ch, ev)) (ao_Channels opts) ns)))"
proof -
  note f = New_Engine_fields [OF assms(1)]
  let ?match = "ev_Command ev \<in> (\<lambda>c. ToUpper U (TrimSpace c)) ` set (ao_Commands opts) \<or>
    (\<exists>p\<in>set (ao_Patterns opts). rx_match rx (''(?i)'' @ p) (CommandLine ev))"
  let ?ign = "src_IP (ev_Source ev) \<in> set (ao_IgnoredSourceIPs opts)"
  have match: "match_rule rx e ev \<noteq> None \<longleftrightarrow> ?match"
    unfolding match_rule_iff using assms(2) f(1,2) by auto
  have ign: "src_IP (ev_Source ev) \<in> en_ignoredIPs e \<longleftrightarrow> ?ign" and rep: "en_rep e"
    using assms(2,4) f(3,5) by auto
  show ?thesis
  proof (cases "?match \<and> \<not> ?ign")
    case False
    then have "es = []" using assms(3) match ign by (auto simp: handle_def split: option.splits if_splits)
    with False show ?thesis unfolding Let_def by auto
  next
    case True
    then obtain reason where reason: "match_rule rx e ev = Some reason" using match by auto
    obtain ok e1 where r: "rateLimitAllow now ev e = (ok, e1)" by (meson surj_pair)
    note frame = rateLimitAllow_frame [OF r]
    have ch: "en_channels e1 = ao_Channels opts" "en_retryMax e1 = en_retryMax e" "1 \<le> en_retryMax e1"
      using frame assms(2) f(4,6) by auto
    show ?thesis
    proof (cases ok)
      case False
      with True assms(3) reason ign rep r show ?thesis by (auto simp: handle_def Let_def)
    next
      case ok: True
      obtain a where es: "es = to_sink True [CSuspicious (ev_Command ev) (src_IP (ev_Source ev))] @
          dispatch_channels e1 a ev env 0 (en_channels e1)"
        using True ok assms(3) reason ign rep r by (auto simp: handle_def Let_def)
      from sends_dispatch [OF ch(3), of "en_channels e1" a ev env 0] True ok r
      show ?thesis unfolding Let_def es ch(1,2) by simp
    qed
  qed
qed

theorem handle_alerts_witness:
  "\<exists>ns. length ns = 1 \<and> sends (snd (handle sample_regexp 0 (\<lambda>_ _. sample_send 200) (sample_event ''FLUSHALL'' []) sample_engine)) =
     concat (map2 (\<lambda>ch n. replicate n (Channel_Name ch, sample_event ''FLUSHALL'' [])) [sample_webhook] ns)"
proof -
  obtain e' es where h: "handle sample_regexp 0 (\<lambda>_ _. sample_send 200) (sample_event ''FLUSHALL'' []) sample_engine = (e', es)"
    by (meson surj_pair)
  have new: "New_Engine ascii_only sample_regexp sample_alert_opts = Inr sample_engine"
    by (simp add: sample_engine_def New_Engine_def sample_alert_opts_def)
  have up: "ToUpper ascii_only (TrimSpace ''flushall'') = ''FLUSHALL''" by code_simp
  have al: "fst (rateLimitAllow 0 (sample_event ''FLUSHALL'' []) sample_engine)"
    by (simp add: rateLimitAllow_def Let_def sample_engine_simps)
  have opts: "ao_Commands sample_alert_opts = [''flushall'']" "ao_IgnoredSourceIPs sample_alert_opts = []"
    "ao_Channels sample_alert_opts = [sample_webhook]" "ao_Reporter sample_alert_opts"
    by (simp_all add: sample_alert_opts_def)
  have cmd: "ev_Command (sample_event ''FLUSHALL'' []) = ''FLUSHALL''" by (simp add: sample_event_def)
  from handle_alerts [OF new _ h opts(4), of "en_in sample_engine" "en_rates sample_engine"]
  show ?thesis unfolding Let_def opts cmd h by (simp add: up al) blast
qed

section \<open>Channels\<close>

text \<open>
  A channel accepts an alert exactly when its backend confirmed it: Telegram and the webhook
  when the request could be built and the status is 2xx (the webhook also needs a timestamp that
  JSON can hold), the Pushgateway when there is at least one URL and the push to every one of them
  succeeded; one failing gateway makes the whole alert count as failed, and be retried on all.
\<close>

theorem channel_success:
  "(Channel_Send env (Telegram t) a = None \<longleftrightarrow>
      se_request_ok env \<and> (\<exists>code. se_http env = HttpStatus code \<and> 200 \<le> code \<and> code < 300)) \<and>
   (Channel_Send env (Webhook w) a = None \<longleftrightarrow> (\<exists>body. webhookPayload a = Inr body) \<and>
      se_request_ok env \<and> (\<exists>code. se_http env = HttpStatus code \<and> 200 \<le> code \<and> code < 300)) \<and>
   (Channel_Send env (Pushgateway p) a = None \<longleftrightarrow> pg_urls p \<noteq> [] \<and> list_all (\<lambda>u. se_push env u = None) (pg_urls p))"
proof -
  have div: "code div 100 = 2 \<longleftrightarrow> 200 \<le> code \<and> code < 300" for code :: int by linarith
  have "push_errors env us = [] \<longleftrightarrow> list_all (\<lambda>u. se_push env u = None) us" for us
    by (induction us) (auto simp: push_errors_def split: option.splits)
  then show ?thesis
    by (auto simp: Telegram_Send_def Webhook_Send_def Pushgateway_Send_def http_outcome_def div
        split: http_result.splits sum.splits if_splits)
qed

text \<open>
  The source label of a pushed alert is the address of the event, for every address form whose
  port holds no colon.
\<close>

lemma alert_source_label:
  assumes "CHR '':'' \<notin> set (src_Port (ev_Source ev))"
  shows "sourceIP (src_IP (ev_Source ev) @ '':'' @ src_Port (ev_Source ev)) = src_IP (ev_Source ev)"
  using LastIndexByte_sep [of "CHR '':''" "src_Port (ev_Source ev)" "src_IP (ev_Source ev)"] assms
  by (simp add: sourceIP_def)

section \<open>The queue contract\<close>

interpretation engine_queue: drop_queue "\<lambda>e ev. map_option fst (Engine_Submit e ev)"
  "\<lambda>e. ch_buf (en_in e)" Engine_QueueCapacity en_drop en_dropped
  by unfold_locales
     (auto simp: Engine_Submit_def Engine_QueueCapacity_def ch_send_def ch_room_def split: if_splits)

text \<open>A burst of events at the engine: the oldest are kept, the others are counted.\<close>

lemma engine_burst:
  assumes "en_drop e" "Engine_QueueDepth e \<le> Engine_QueueCapacity e"
  shows "\<exists>e'. submit_all (\<lambda>e ev. map_option fst (Engine_Submit e ev)) e evs = Some e' \<and>
     ch_buf (en_in e') = ch_buf (en_in e) @ take (Engine_QueueCapacity e - Engine_QueueDepth e) evs \<and>
     en_dropped e' = en_dropped e + of_nat (length evs - (Engine_QueueCapacity e - Engine_QueueDepth e))"
  using engine_queue.submit_all_drop [of e evs] assms unfolding Engine_QueueDepth_def by blast

end
