(* ===== verification/App.thy ===== *)
theory App
  imports Support Output Monitor Role Alert
begin

text \<open>
  The wiring of \<^verbatim>\<open>internal/app/app.go\<close>: building each component from the validated
  configuration, installing the metrics registry and the queue collector, and the dispatcher that
  fans events out to metrics, outputs and alerts. The goroutines that \<^verbatim>\<open>Run\<close> starts are the
  step functions of the components; the error tracker's SDK and the regexp engine are parameters.
\<close>

section \<open>Building the components\<close>

datatype app_error =
    LoadConfig config_error
  | BuildLogger log_error
  | InitSentry sentry_error
  | BuildOutput net_error
  | UnsupportedOutput string
  | BuildAlerts engine_error
  | CollectorRefused
  | MakeChanPanic

definition build_sink :: "OutputConfig \<Rightarrow> app_error + Sink" where
  "build_sink oc =
     (if oc_Type oc = ''stdout'' then Inr (Stdout (NewStdoutSink (oc_Format oc)))
      else if oc_Type oc = ''file'' then
        Inr (File (NewFileSink
          \<lparr>fo_Path = oc_Path oc, fo_MaxSizeMB = rot_MaxSizeMB (oc_Rotation oc),
           fo_MaxBackups = rot_MaxBackups (oc_Rotation oc), fo_MaxAgeDays = rot_MaxAgeDays (oc_Rotation oc),
           fo_Compress = rot_Compress (oc_Rotation oc), fo_LocalTime = rot_LocalTime (oc_Rotation oc),
           fo_Format = oc_Format oc\<rparr>))
      else if oc_Type oc = ''udp'' \<or> oc_Type oc = ''tcp'' then
        (case NewNetSink \<lparr>no_Network = oc_Type oc, no_Address = oc_Address oc, no_Timeout = oc_Timeout oc,
                          no_Keepalive = oc_Keepalive oc, no_Format = oc_Format oc\<rparr> of
           Inl e \<Rightarrow> Inl (BuildOutput e)
         | Inr s \<Rightarrow> Inr (Net s))
      else Inl (UnsupportedOutput (oc_Type oc)))"

fun build_consumers :: "PipelineConfig \<Rightarrow> OutputConfig list \<Rightarrow> Manager \<Rightarrow> app_error + Manager" where
  "build_consumers pc [] mgr = Inr mgr"
| "build_consumers pc (oc # ocs) mgr =
     (if \<not> oc_Enabled oc then build_consumers pc ocs mgr
      else
        and_then (build_sink oc) (\<lambda>sink.
          case NewConsumer sink (pc_ConsumerBuffer pc) (pc_DropOnFull pc) of
            None \<Rightarrow> Inl MakeChanPanic
          | Some c \<Rightarrow> build_consumers pc ocs (Manager_Add c mgr)))"

definition buildOutputs :: "Config \<Rightarrow> app_error + Manager option" where
  "buildOutputs cfg =
     and_then (build_consumers (cfg_Pipeline cfg) (cfg_Outputs cfg) NewManager)
       (\<lambda>mgr. Inr (if mgr = [] then None else Some mgr))"

definition build_channels :: "unicode \<Rightarrow> AlertsConfig \<Rightarrow> Channel list" where
  "build_channels U a =
     (if tc_Enabled (ac_Telegram a) then
        [Telegram (NewTelegramChannel
           \<lparr>to_Endpoint = tc_Endpoint (ac_Telegram a), to_BotToken = tc_BotToken (ac_Telegram a),
            to_ChatID = tc_ChatID (ac_Telegram a), to_ThreadID = tc_ThreadID (ac_Telegram a),
            to_Timeout = tc_Timeout (ac_Telegram a)\<rparr>)] else []) @
     (if wc_Enabled (ac_Webhook a) then
        [Webhook (NewWebhookChannel U (wc_URL (ac_Webhook a)) (wc_Method (ac_Webhook a))
           (wc_Headers (ac_Webhook a)) (wc_Timeout (ac_Webhook a)))] else []) @
     (if pw_Enabled (ac_Pushgateway a) then
        [Pushgateway (NewPushgatewayChannel
           \<lparr>po_URLs = pw_URLs (ac_Pushgateway a), po_Job = pw_Job (ac_Pushgateway a),
            po_Username = pw_Username (ac_Pushgateway a), po_Password = pw_Password (ac_Pushgateway a),
            po_Labels = pw_Labels (ac_Pushgateway a), po_Timeout = pw_Timeout (ac_Pushgateway a)\<rparr>)] else [])"

definition alert_options :: "unicode \<Rightarrow> Config \<Rightarrow> AlertOptions" where
  "alert_options U cfg =
     (let a = cfg_Alerts cfg in
      \<lparr>ao_Channels = build_channels U a, ao_Commands = ac_SuspiciousCommands a, ao_Patterns = ac_Patterns a,
       ao_IgnoredSourceIPs = ac_IgnoredSourceIPs a, ao_RateLimitEnabled = rl_Enabled (ac_RateLimit a),
       ao_RateWindow = rl_Window (ac_RateLimit a), ao_RateMaxAlerts = rl_MaxAlerts (ac_RateLimit a),
       ao_RetryMaxAttempts = rt_MaxAttempts (ac_Retry a), ao_RetryInitialBackoff = rt_InitialBackoff (ac_Retry a),
       ao_RetryMaxBackoff = rt_MaxBackoff (ac_Retry a), ao_BufferSize = pc_ConsumerBuffer (cfg_Pipeline cfg),
       ao_DropOnFull = pc_DropOnFull (cfg_Pipeline cfg), ao_SendTimeout = 0, ao_Reporter = True\<rparr>)"

definition buildAlertEngine :: "unicode \<Rightarrow> regexp_engine \<Rightarrow> Config \<Rightarrow> app_error + Engine option" where
  "buildAlertEngine U rx cfg =
     (if \<not> ac_Enabled (cfg_Alerts cfg) \<or> build_channels U (cfg_Alerts cfg) = [] then Inr None
      else case New_Engine U rx (alert_options U cfg) of
             Inl e \<Rightarrow> Inl (BuildAlerts e)
           | Inr eng \<Rightarrow> Inr (Some eng))"

definition client_options :: "Config \<Rightarrow> Options" where
  "client_options cfg =
     (let r = cfg_Redis cfg in
      \<lparr>o_Network = rc_Network r, o_Address = rc_Address r, o_Username = rc_Username r,
       o_Password = rc_Password r, o_DialTimeout = rc_DialTimeout r, o_ReadTimeout = rc_ReadTimeout r,
       o_BackoffMin = rc_BackoffMin r, o_BackoffMax = rc_BackoffMax r\<rparr>)"

definition build_monitor :: "Config \<Rightarrow> app_error + Client" where
  "build_monitor cfg =
     (if pc_EventBuffer (cfg_Pipeline cfg) < 0 then Inl MakeChanPanic
      else Inr (Client_SetMetricsSink True
             (New_Client (client_options cfg) (make_chan (nat (pc_EventBuffer (cfg_Pipeline cfg)))) True
                (pc_DropOnFull (cfg_Pipeline cfg)))))"

definition role_options :: "Config \<Rightarrow> RoleOptions" where
  "role_options cfg =
     \<lparr>ro_Network = rc_Network (cfg_Redis cfg), ro_Address = rc_Address (cfg_Redis cfg),
      ro_Username = rc_Username (cfg_Redis cfg), ro_Password = rc_Password (cfg_Redis cfg),
      ro_DialTimeout = rk_DialTimeout (cfg_RoleCheck cfg), ro_ReadTimeout = rk_ReadTimeout (cfg_RoleCheck cfg),
      ro_Interval = rk_Interval (cfg_RoleCheck cfg), ro_AllowReplica = rk_AllowReplica (cfg_RoleCheck cfg)\<rparr>"

definition buildRoleChecker :: "Config \<Rightarrow> Client \<Rightarrow> Checker option \<times> Client" where
  "buildRoleChecker cfg mon =
     (if \<not> rk_Enabled (cfg_RoleCheck cfg) then (None, mon)
      else (Some (New_Checker (role_options cfg) True), SetGate True mon))"

section \<open>Metrics wiring\<close>

record pipeline =
  pl_mon :: Client
  pl_outputs :: "Manager option"
  pl_alerts :: "Engine option"

fun add_outputs :: "nat \<Rightarrow> Consumer list \<Rightarrow> pipeline QueueDepthCollector \<Rightarrow> pipeline QueueDepthCollector" where
  "add_outputs i [] q = q"
| "add_outputs i (c # cs) q =
     add_outputs (Suc i) cs
       (Add_queue (''output:'' @ c_name c)
          (\<lambda>pl. case pl_outputs pl of None \<Rightarrow> 0 | Some m \<Rightarrow> QueueDepth (m ! i)) (QueueCapacity c) q)"

text \<open>The names of the collector's two series.\<close>

definition queue_series :: "string list" where
  "queue_series = [''redis_watcher_queue_depth'', ''redis_watcher_queue_capacity'']"

definition queue_collector :: "pipeline \<Rightarrow> pipeline QueueDepthCollector" where
  "queue_collector pl =
     (let q0 = Add_queue ''events'' (\<lambda>p. Client_QueueDepth (pl_mon p)) (Client_QueueCapacity (pl_mon pl))
                 NewQueueDepthCollector;
          q1 = (case pl_outputs pl of None \<Rightarrow> q0 | Some m \<Rightarrow> add_outputs 0 m q0)
      in case pl_alerts pl of
           None \<Rightarrow> q1
         | Some e \<Rightarrow> Add_queue ''alerts''
             (\<lambda>p. case pl_alerts p of None \<Rightarrow> 0 | Some x \<Rightarrow> Engine_QueueDepth x) (Engine_QueueCapacity e) q1)"

definition wireMetrics :: "pipeline \<Rightarrow> app_error + pipeline \<times> pipeline QueueDepthCollector" where
  "wireMetrics pl =
     (let pl1 = pl\<lparr>pl_outputs := map_option (map (SetMetricsSink True)) (pl_outputs pl)\<rparr>
      in if RegisterCollector queue_series then Inr (pl1, queue_collector pl1) else Inl CollectorRefused)"

section \<open>Start-up\<close>

record BuildInfo =
  bi_Version :: string
  bi_Commit :: string
  bi_Date :: string

record app =
  a_logger :: logger
  a_sentry :: "ClientOptions option"
  a_registry :: Registry
  a_pipeline :: pipeline
  a_queues :: "pipeline QueueDepthCollector"
  a_role :: "Checker option"
  a_server :: "(string \<times> string) option"
  a_ignored :: "string set"

text \<open>The first part of \<^verbatim>\<open>Run\<close>, up to the point where the goroutines start.\<close>

definition startup ::
  "unicode \<Rightarrow> regexp_engine \<Rightarrow> (ClientOptions \<Rightarrow> string option) \<Rightarrow> loader \<Rightarrow> int \<Rightarrow> string \<Rightarrow> BuildInfo \<Rightarrow>
     app_error + app" where
  "startup U rx sdk ld now path info =
     and_then (case Load U ld path of Inl e \<Rightarrow> Inl (LoadConfig e) | Inr cfg \<Rightarrow> Inr cfg) (\<lambda>cfg.
     and_then (case Build U (cfg_Log cfg) of Inl e \<Rightarrow> Inl (BuildLogger e) | Inr lg \<Rightarrow> Inr lg) (\<lambda>lg.
     and_then (case Init sdk (cfg_Sentry cfg) (bi_Version info) of Inl e \<Rightarrow> Inl (InitSentry e) | Inr s \<Rightarrow> Inr s) (\<lambda>sentry.
     and_then (buildOutputs cfg) (\<lambda>outMgr.
     and_then (buildAlertEngine U rx cfg) (\<lambda>alertEngine.
     and_then (build_monitor cfg) (\<lambda>mon.
     and_then (wireMetrics \<lparr>pl_mon = mon, pl_outputs = outMgr, pl_alerts = alertEngine\<rparr>) (\<lambda>(pl, queues).
       let (role, mon1) = buildRoleChecker cfg (pl_mon pl) in
       Inr \<lparr>a_logger = lg, a_sentry = sentry,
            a_registry = New_Registry (mt_IgnoredCommands (cfg_Metrics cfg)) (mt_TrackSourceIP (cfg_Metrics cfg))
              (bi_Version info) (bi_Commit info) now,
            a_pipeline = pl\<lparr>pl_mon := mon1\<rparr>, a_queues = queues, a_role = role,
            a_server = (if mt_Enabled (cfg_Metrics cfg)
                        then Some (mt_Address (cfg_Metrics cfg), mt_Path (cfg_Metrics cfg)) else None),
            a_ignored = IgnoredSet U (cfg_Filter cfg)\<rparr>)))))))"

section \<open>The dispatcher\<close>

record dispatcher =
  dp_outputs :: "Manager option"
  dp_alerts :: "Engine option"
  dp_ignored :: "string set"

text \<open>A call of a component that may be absent (a nil pointer that is tested first).\<close>

definition offer :: "('s \<Rightarrow> ('s \<times> effect list) option) \<Rightarrow> 's option \<Rightarrow> ('s option \<times> effect list) option" where
  "offer f part = (case part of None \<Rightarrow> Some (None, []) | Some s \<Rightarrow> map_option (apfst Some) (f s))"

text \<open>One event; \<open>None\<close> when a queue without the drop policy is full, so that the dispatcher waits.\<close>

definition dispatch_event :: "Event \<Rightarrow> dispatcher \<Rightarrow> (dispatcher \<times> effect list) option" where
  "dispatch_event ev d =
     (if ev_Command ev \<in> dp_ignored d then Some (d, [Metric (CIgnored (ev_Command ev))])
      else
        case offer (Dispatch ev) (dp_outputs d) of
          None \<Rightarrow> None
        | Some (outs, es) \<Rightarrow>
            (case offer (\<lambda>e. Engine_Submit e ev) (dp_alerts d) of
               None \<Rightarrow> None
             | Some (al, fs) \<Rightarrow>
                 Some (d\<lparr>dp_outputs := outs, dp_alerts := al\<rparr>, Metric (CRecord ev) # es @ fs)))"

fun dispatch_all :: "Event list \<Rightarrow> dispatcher \<Rightarrow> (dispatcher \<times> effect list) option" where
  "dispatch_all [] d = Some (d, [])"
| "dispatch_all (ev # evs) d =
     (case dispatch_event ev d of
        None \<Rightarrow> None
      | Some (d1, es) \<Rightarrow>
          (case dispatch_all evs d1 of None \<Rightarrow> None | Some (d2, fs) \<Rightarrow> Some (d2, es @ fs)))"

section \<open>The command line\<close>

definition defaultConfigPath :: "environment \<Rightarrow> (string \<Rightarrow> bool) \<Rightarrow> string" where
  "defaultConfigPath env exists =
     (case env ''REDIS_WATCHER_CONFIG'' of
        Some p \<Rightarrow> if p \<noteq> [] then p
                  else if exists ''/etc/redis-watcher/config.yaml'' then ''/etc/redis-watcher/config.yaml'' else ''config.yaml''
      | None \<Rightarrow> if exists ''/etc/redis-watcher/config.yaml'' then ''/etc/redis-watcher/config.yaml'' else ''config.yaml'')"

section \<open>Facts about start-up\<close>

lemma Load_stable:
  assumes "Load U ld path = Inr cfg"
  shows "acceptable U cfg" and "fill cfg = cfg"
proof -
  obtain b where "Validate U b = Inr cfg" using assms by (auto simp: Load_def and_then_Inr)
  then show "acceptable U cfg" "fill cfg = cfg" using acceptable_fill by (auto simp: Validate_Inr)
qed

lemma filled_sections:
  assumes "fill cfg = cfg"
  shows "fill_redis (cfg_Redis cfg) = cfg_Redis cfg" "validate_pipeline (cfg_Pipeline cfg) = cfg_Pipeline cfg"
    "validate_role (cfg_RoleCheck cfg) = cfg_RoleCheck cfg"
  using arg_cong [OF assms, of cfg_Redis] arg_cong [OF assms, of cfg_Pipeline] arg_cong [OF assms, of cfg_RoleCheck]
  by (simp_all add: fill_def)

lemma filled_buffers:
  assumes "fill cfg = cfg"
  shows "0 < pc_EventBuffer (cfg_Pipeline cfg)" "0 < pc_ConsumerBuffer (cfg_Pipeline cfg)"
  by (subst filled_sections(2) [OF assms, symmetric], simp add: validate_pipeline_def)+

lemma filled_backoffs:
  assumes "fill cfg = cfg"
  shows "0 < rc_BackoffMin (cfg_Redis cfg)" "rc_BackoffMin (cfg_Redis cfg) \<le> rc_BackoffMax (cfg_Redis cfg)"
  by (subst (1) filled_sections(1) [OF assms, symmetric], simp add: fill_redis_def Let_def)
     (subst (1 2) filled_sections(1) [OF assms, symmetric], simp add: fill_redis_def Let_def)

lemma filled_role:
  assumes "fill cfg = cfg" "rk_Enabled (cfg_RoleCheck cfg)"
  shows "0 < rk_Interval (cfg_RoleCheck cfg)" "0 < rk_DialTimeout (cfg_RoleCheck cfg)"
    "0 < rk_ReadTimeout (cfg_RoleCheck cfg)"
  by (subst filled_sections(3) [OF assms(1), symmetric], simp add: validate_role_def assms(2) Let_def)+

text \<open>A fresh consumer for one output section.\<close>

definition consumer_for :: "PipelineConfig \<Rightarrow> OutputConfig \<Rightarrow> Consumer \<Rightarrow> bool" where
  "consumer_for pc oc c \<longleftrightarrow>
     build_sink oc = Inr (c_sink c) \<and> c_name c = oc_Type oc \<and> c_in c = make_chan (nat (pc_ConsumerBuffer pc)) \<and>
     c_drop c = pc_DropOnFull pc \<and> c_written c = 0 \<and> c_errors c = 0 \<and> c_dropped c = 0 \<and> \<not> c_failing c"

lemma build_sink_ok: "ok_output oc \<Longrightarrow> oc_Enabled oc \<Longrightarrow> \<exists>s. build_sink oc = Inr s \<and> Sink_Name s = oc_Type oc"
  by (auto simp: ok_output_def build_sink_def NewNetSink_def)

lemma build_consumers_ok:
  assumes "list_all ok_output ocs" "0 \<le> pc_ConsumerBuffer pc"
  shows "\<exists>cs. build_consumers pc ocs mgr = Inr (mgr @ cs) \<and> list_all2 (consumer_for pc) (filter oc_Enabled ocs) cs"
  using assms
proof (induction ocs arbitrary: mgr)
  case Nil
  then show ?case by simp
next
  case (Cons oc ocs)
  show ?case
  proof (cases "oc_Enabled oc")
    case False
    with Cons show ?thesis by simp
  next
    case True
    then obtain s where s: "build_sink oc = Inr s" "Sink_Name s = oc_Type oc"
      using build_sink_ok Cons.prems by auto
    obtain c where c: "NewConsumer s (pc_ConsumerBuffer pc) (pc_DropOnFull pc) = Some c"
      using Cons.prems by (simp add: NewConsumer_def)
    with s have "consumer_for pc oc c" by (auto simp: NewConsumer_def consumer_for_def split: if_splits)
    moreover obtain cs where "build_consumers pc ocs (mgr @ [c]) = Inr ((mgr @ [c]) @ cs)"
      "list_all2 (consumer_for pc) (filter oc_Enabled ocs) cs" using Cons.IH [of "mgr @ [c]"] Cons.prems by auto
    ultimately show ?thesis using True s c by (auto simp: and_then_def Manager_Add_def)
  qed
qed

lemma buildOutputs_ok:
  assumes "list_all ok_output (cfg_Outputs cfg)" "0 \<le> pc_ConsumerBuffer (cfg_Pipeline cfg)"
  shows "\<exists>cs. buildOutputs cfg = Inr (if cs = [] then None else Some cs) \<and>
     list_all2 (consumer_for (cfg_Pipeline cfg)) (filter oc_Enabled (cfg_Outputs cfg)) cs"
proof -
  obtain cs where "build_consumers (cfg_Pipeline cfg) (cfg_Outputs cfg) NewManager = Inr (NewManager @ cs)"
    and cs: "list_all2 (consumer_for (cfg_Pipeline cfg)) (filter oc_Enabled (cfg_Outputs cfg)) cs"
    using build_consumers_ok [OF assms] by blast
  then have "buildOutputs cfg = Inr (if cs = [] then None else Some cs)"
    by (simp add: buildOutputs_def and_then_def NewManager_def)
  with cs show ?thesis by blast
qed

lemma wireMetrics_ok:
  "wireMetrics pl =
     (let pl1 = pl\<lparr>pl_outputs := map_option (map (SetMetricsSink True)) (pl_outputs pl)\<rparr> in Inr (pl1, queue_collector pl1))"
proof -
  have "RegisterCollector queue_series" by code_simp
  then show ?thesis by (simp add: wireMetrics_def Let_def)
qed

lemma add_outputs_names:
  "map qr_name (add_outputs i cs q) = map qr_name q @ map (\<lambda>c. ''output:'' @ c_name c) cs"
  by (induction i cs q rule: add_outputs.induct) (simp_all add: Add_queue_def)

lemma queue_collector_names:
  "map qr_name (queue_collector pl) =
     ''events'' # (case pl_outputs pl of None \<Rightarrow> [] | Some m \<Rightarrow> map (\<lambda>c. ''output:'' @ c_name c) m) @
     (case pl_alerts pl of None \<Rightarrow> [] | Some e \<Rightarrow> [''alerts''])"
  by (simp add: queue_collector_def Add_queue_def NewQueueDepthCollector_def add_outputs_names Let_def split: option.split)

text \<open>What \<^verbatim>\<open>Run\<close> has built when it starts its goroutines.\<close>

definition monitor_for :: "Config \<Rightarrow> Client" where
  "monitor_for cfg =
     \<lparr>mc_opts = client_options cfg, mc_out = make_chan (nat (pc_EventBuffer (cfg_Pipeline cfg))), mc_report = True,
      mc_metrics = True, mc_drop = pc_DropOnFull (cfg_Pipeline cfg), mc_gate = rk_Enabled (cfg_RoleCheck cfg),
      mc_dropped = 0, mc_parseEr = 0, mc_recon = 0\<rparr>"

lemma build_monitor_ok:
  assumes "fill cfg = cfg"
  shows "build_monitor cfg = Inr (monitor_for cfg\<lparr>mc_gate := False\<rparr>)"
  using filled_buffers(1) [OF assms] filled_backoffs [OF assms]
  by (simp add: build_monitor_def monitor_for_def New_Client_def client_options_def Client_SetMetricsSink_def Let_def)

lemma buildRoleChecker_ok:
  assumes "fill cfg = cfg"
  shows "buildRoleChecker cfg (monitor_for cfg\<lparr>mc_gate := False\<rparr>) =
     (if rk_Enabled (cfg_RoleCheck cfg)
      then Some \<lparr>ck_opts = role_options cfg, ck_metrics = True, ck_isMaster = False, ck_current = RoleUnknown,
                 ck_waiters = [], ck_fresh = 0, ck_probeErr = None\<rparr>
      else None, monitor_for cfg)"
proof (cases "rk_Enabled (cfg_RoleCheck cfg)")
  case True
  with filled_role [OF assms] show ?thesis
    by (simp add: buildRoleChecker_def New_Checker_def role_options_def SetGate_def monitor_for_def)
next
  case False
  then show ?thesis by (simp add: buildRoleChecker_def monitor_for_def)
qed

definition outputs_for :: "Consumer list \<Rightarrow> Manager option" where
  "outputs_for cs = (if cs = [] then None else Some (map (SetMetricsSink True) cs))"

definition app_for ::
  "unicode \<Rightarrow> int \<Rightarrow> BuildInfo \<Rightarrow> Config \<Rightarrow> logger \<Rightarrow> ClientOptions option \<Rightarrow> Consumer list \<Rightarrow> Engine option \<Rightarrow> app" where
  "app_for U now info cfg lg sentry cs al =
     \<lparr>a_logger = lg, a_sentry = sentry,
      a_registry = New_Registry (mt_IgnoredCommands (cfg_Metrics cfg)) (mt_TrackSourceIP (cfg_Metrics cfg))
        (bi_Version info) (bi_Commit info) now,
      a_pipeline = \<lparr>pl_mon = monitor_for cfg, pl_outputs = outputs_for cs, pl_alerts = al\<rparr>,
      a_queues = queue_collector \<lparr>pl_mon = monitor_for cfg\<lparr>mc_gate := False\<rparr>, pl_outputs = outputs_for cs, pl_alerts = al\<rparr>,
      a_role = fst (buildRoleChecker cfg (monitor_for cfg\<lparr>mc_gate := False\<rparr>)),
      a_server = (if mt_Enabled (cfg_Metrics cfg)
                  then Some (mt_Address (cfg_Metrics cfg), mt_Path (cfg_Metrics cfg)) else None),
      a_ignored = IgnoredSet U (cfg_Filter cfg)\<rparr>"

lemma startup_after_load:
  assumes "Load U ld path = Inr cfg"
  shows "\<exists>lg cs. Build U (cfg_Log cfg) = Inr lg \<and>
    list_all2 (consumer_for (cfg_Pipeline cfg)) (filter oc_Enabled (cfg_Outputs cfg)) cs \<and>
    startup U rx sdk ld now path info =
      and_then (case Init sdk (cfg_Sentry cfg) (bi_Version info) of Inl e \<Rightarrow> Inl (InitSentry e) | Inr s \<Rightarrow> Inr s) (\<lambda>sentry.
      and_then (buildAlertEngine U rx cfg) (\<lambda>al. Inr (app_for U now info cfg lg sentry cs al)))"
proof -
  note acc = Load_stable(1) [OF assms] and filled = Load_stable(2) [OF assms]
  obtain lg where lg: "Build U (cfg_Log cfg) = Inr lg"
    using Build_validated [of U "cfg_Log cfg"] acc by (auto simp: validate_log_Inr acceptable_def)
  obtain cs where cs: "buildOutputs cfg = Inr (if cs = [] then None else Some cs)"
    "list_all2 (consumer_for (cfg_Pipeline cfg)) (filter oc_Enabled (cfg_Outputs cfg)) cs"
    using buildOutputs_ok [of cfg] acc filled_buffers(2) [OF filled] by (auto simp: acceptable_def)
  show ?thesis
    by (rule exI [of _ lg], rule exI [of _ cs])
       (simp add: startup_def assms lg cs build_monitor_ok [OF filled] buildRoleChecker_ok [OF filled] wireMetrics_ok
         app_for_def outputs_for_def and_then_def Let_def split: sum.split)
qed

lemma New_Engine_Inl:
  "New_Engine U rx opts = Inl e \<longleftrightarrow>
     (\<exists>p ps. filter (\<lambda>p. \<not> rx_compiles rx (''(?i)'' @ p)) (ao_Patterns opts) = p # ps \<and> e = CompilePattern p)"
  by (auto simp: New_Engine_def Let_def split: list.split)

lemma filter_Cons_bad: "filter P xs = y # ys \<Longrightarrow> y \<in> set xs \<and> P y"
  by (metis Cons_eq_filterD in_set_conv_decomp)

lemma buildAlertEngine_Inl:
  assumes "buildAlertEngine U rx cfg = Inl e"
  shows "\<exists>p\<in>set (ac_Patterns (cfg_Alerts cfg)). e = BuildAlerts (CompilePattern p) \<and> \<not> rx_compiles rx (''(?i)'' @ p)"
  using assms filter_Cons_bad
  by (fastforce simp: buildAlertEngine_def alert_options_def New_Engine_Inl Let_def split: if_splits sum.splits)

section \<open>Properties of start-up\<close>


definition bad_regexp :: regexp_engine where
  "bad_regexp = \<lparr>rx_compiles = (\<lambda>_. False), rx_match = (\<lambda>_ _. False)\<rparr>"

definition alerting_loader :: loader where
  "alerting_loader =
     \<lparr>ld_read = (\<lambda>_. Inr []),
      ld_decode = (\<lambda>_ c. Inr (c\<lparr>cfg_Alerts := (cfg_Alerts c)\<lparr>ac_Enabled := True, ac_Patterns := [''(''],
        ac_Webhook := (ac_Webhook (cfg_Alerts c))\<lparr>wc_Enabled := True, wc_URL := ''http://h/''\<rparr>\<rparr>\<rparr>)),
      ld_env = (\<lambda>_. None), ld_fscale = (\<lambda>_ _ _. 0)\<rparr>"

definition sample_info :: BuildInfo where
  "sample_info = \<lparr>bi_Version = ''v1'', bi_Commit = ''abc'', bi_Date = ''today''\<rparr>"


lemma startup_Inr:
  assumes "startup U rx sdk ld now path info = Inr a" "Load U ld path = Inr cfg"
  shows "\<exists>lg sentry cs al. list_all2 (consumer_for (cfg_Pipeline cfg)) (filter oc_Enabled (cfg_Outputs cfg)) cs \<and>
    buildAlertEngine U rx cfg = Inr al \<and> a = app_for U now info cfg lg sentry cs al"
proof -
  from startup_after_load [OF assms(2), of rx sdk now info] obtain lg cs where
    "list_all2 (consumer_for (cfg_Pipeline cfg)) (filter oc_Enabled (cfg_Outputs cfg)) cs"
    "startup U rx sdk ld now path info =
      and_then (case Init sdk (cfg_Sentry cfg) (bi_Version info) of Inl e \<Rightarrow> Inl (InitSentry e) | Inr s \<Rightarrow> Inr s) (\<lambda>sentry.
      and_then (buildAlertEngine U rx cfg) (\<lambda>al. Inr (app_for U now info cfg lg sentry cs al)))" by blast
  with assms(1) show ?thesis by (fastforce simp: and_then_Inr)
qed

lemma New_Engine_Inr:
  assumes "New_Engine U rx opts = Inr e"
  shows "en_channels e = ao_Channels opts" "en_drop e = ao_DropOnFull opts" "en_rep e = ao_Reporter opts"
    "en_in e = make_chan (nat (if ao_BufferSize opts \<le> 0 then 1024 else ao_BufferSize opts))"
    "en_retryMax e = (if ao_RetryMaxAttempts opts \<le> 0 then 1 else ao_RetryMaxAttempts opts)"
    "en_retryMaxBackoff e = ao_RetryMaxBackoff opts" "en_rateWindow e = ao_RateWindow opts"
    "en_rateMaxAlerts e = ao_RateMaxAlerts opts" "en_rateLimit e = ao_RateLimitEnabled opts"
  using assms by (auto simp: New_Engine_def Let_def split: list.splits)


text \<open>
  C40: Queue labels. The series of the queue collector have distinct labels, as a scrape requires,
  exactly when no two enabled outputs have the same type: the label of an output queue is the
  sink's type, so a second file or network output makes the collector emit duplicate samples.
\<close>

theorem queue_labels_distinct:
  assumes "startup U rx sdk ld now path info = Inr a" and "Load U ld path = Inr cfg"
  shows "distinct (map (\<lambda>(d, n, v). (d, n)) (Collect (a_queues a) st)) \<longleftrightarrow>
     distinct (map oc_Type (filter oc_Enabled (cfg_Outputs cfg)))"
proof -
  obtain lg sentry cs al where a: "list_all2 (consumer_for (cfg_Pipeline cfg)) (filter oc_Enabled (cfg_Outputs cfg)) cs"
    "a = app_for U now info cfg lg sentry cs al"
    using startup_Inr [OF assms] by blast
  have names: "map c_name cs = map oc_Type (filter oc_Enabled (cfg_Outputs cfg))"
    using a(1) by (induction rule: list_all2_induct) (simp_all add: consumer_for_def)
  have qs: "map qr_name (a_queues a) = ''events'' # map (\<lambda>n. ''output:'' @ n) (map c_name cs) @
      (case al of None \<Rightarrow> [] | Some e \<Rightarrow> [''alerts''])"
    by (simp add: a(2) app_for_def outputs_for_def queue_collector_names comp_def SetMetricsSink_def)
  have "distinct (map (\<lambda>n. ''output:'' @ n) ns) = distinct ns" for ns
    by (simp add: distinct_map inj_on_def)
  then have "distinct (map qr_name (a_queues a)) = distinct (map c_name cs)"
    unfolding qs by (cases al) (simp_all add: image_iff del: map_map append_Cons)
  then show ?thesis using distinct_Collect_labels [of "a_queues a" st] names by simp
qed

definition sample_startup :: "loader \<Rightarrow> app_error + app" where
  "sample_startup ld = startup ascii_only bad_regexp (\<lambda>_. None) ld 0 ''config.yaml'' sample_info"

definition stdout_output :: OutputConfig where
  "stdout_output =
     \<lparr>oc_Type = ''stdout'', oc_Enabled = True, oc_Format = ''text'', oc_Path = [], oc_Address = [], oc_Timeout = 0,
      oc_Keepalive = 0, oc_Rotation = \<lparr>rot_MaxSizeMB = 0, rot_MaxBackups = 0, rot_MaxAgeDays = 0, rot_Compress = False,
        rot_LocalTime = False\<rparr>\<rparr>"

definition twin_loader :: loader where
  "twin_loader =
     \<lparr>ld_read = (\<lambda>_. Inr []),
      ld_decode = (\<lambda>_ c. Inr (c\<lparr>cfg_Outputs := [stdout_output, stdout_output]\<rparr>)),
      ld_env = (\<lambda>_. None), ld_fscale = (\<lambda>_ _ _. 0)\<rparr>"


theorem queue_labels_distinct_witness:
  "\<exists>a. sample_startup twin_loader = Inr a \<and> \<not> distinct (map (\<lambda>(d, n, v). (d, n)) (Collect (a_queues a) (a_pipeline a)))"
proof -
  have "\<not> isl (sample_startup twin_loader)" by code_simp
  then obtain a where a: "sample_startup twin_loader = Inr a" by (cases "sample_startup twin_loader") auto
  have "case Load ascii_only twin_loader ''config.yaml'' of Inl _ \<Rightarrow> False
      | Inr cfg \<Rightarrow> \<not> distinct (map oc_Type (filter oc_Enabled (cfg_Outputs cfg)))" by code_simp
  then obtain cfg where "Load ascii_only twin_loader ''config.yaml'' = Inr cfg"
    "\<not> distinct (map oc_Type (filter oc_Enabled (cfg_Outputs cfg)))" by (auto split: sum.splits)
  with a queue_labels_distinct [OF a [unfolded sample_startup_def], of cfg "a_pipeline a"] show ?thesis by blast
qed

section \<open>Facts about the dispatcher\<close>

abbreviation feed :: "Consumer \<Rightarrow> Event list \<Rightarrow> Consumer option" where
  "feed \<equiv> submit_all (\<lambda>c ev. map_option fst (Submit c ev))"

abbreviation feed_alerts :: "Engine \<Rightarrow> Event list \<Rightarrow> Engine option" where
  "feed_alerts \<equiv> submit_all (\<lambda>e ev. map_option fst (Engine_Submit e ev))"

fun is_seen :: "reg_call \<Rightarrow> bool" where
  "is_seen (CRecord ev) = True"
| "is_seen (CIgnored c) = True"
| "is_seen c = False"

definition seen_calls :: "effect list \<Rightarrow> reg_call list" where
  "seen_calls es = filter is_seen (metric_calls es)"

definition kept_events :: "string set \<Rightarrow> Event list \<Rightarrow> Event list" where
  "kept_events ign evs = filter (\<lambda>ev. ev_Command ev \<notin> ign) evs"

lemma Submit_unseen: "Submit c ev = Some (c', es) \<Longrightarrow> seen_calls es = []"
  by (auto simp: Submit_def seen_calls_def split: if_splits option.splits)

lemma Engine_Submit_unseen: "Engine_Submit e ev = Some (e', es) \<Longrightarrow> seen_calls es = []"
  by (auto simp: Engine_Submit_def seen_calls_def split: if_splits option.splits)

lemma seen_calls_append [simp]: "seen_calls (a @ b) = seen_calls a @ seen_calls b"
  by (simp add: seen_calls_def)

lemma Dispatch_Some:
  "Dispatch ev m = Some (m', es) \<Longrightarrow>
     list_all2 (\<lambda>c c'. map_option fst (Submit c ev) = Some c') m m' \<and> seen_calls es = []"
proof (induction m arbitrary: m' es)
  case Nil
  then show ?case by (simp add: seen_calls_def)
next
  case (Cons c m)
  then obtain c' fs m1 gs where "Submit c ev = Some (c', fs)" "Dispatch ev m = Some (m1, gs)"
    "m' = c' # m1" "es = fs @ gs" by (auto split: option.splits)
  with Cons.IH Submit_unseen show ?case by auto
qed

lemma submit_all_single: "submit_all f s [e] = f s e"
  by (simp split: option.split)

lemma offer_Some:
  assumes "offer f x = Some (y, es)"
  obtains "x = None" "y = None" "es = []" | s s' where "x = Some s" "y = Some s'" "f s = Some (s', es)"
  using assms by (auto simp: offer_def split: option.splits)

lemma offer_outputs:
  assumes "offer (Dispatch ev) x = Some (y, es)"
  shows "rel_option (list_all2 (\<lambda>c c'. feed c [ev] = Some c')) x y \<and> seen_calls es = []"
  using assms
proof (rule offer_Some)
  fix m m'
  assume x: "x = Some m" "y = Some m'" "Dispatch ev m = Some (m', es)"
  from Dispatch_Some [OF x(3)] x(1,2) show ?thesis unfolding submit_all_single by simp
qed (simp add: seen_calls_def)

lemma offer_alerts:
  assumes "offer (\<lambda>e. Engine_Submit e ev) x = Some (y, es)"
  shows "rel_option (\<lambda>e e'. feed_alerts e [ev] = Some e') x y \<and> seen_calls es = []"
  using assms unfolding submit_all_single by (rule offer_Some) (auto simp: seen_calls_def dest: Engine_Submit_unseen [unfolded seen_calls_def])

text \<open>What one step of the dispatcher does to each queue.\<close>

lemma dispatch_event_Some:
  assumes "dispatch_event ev d = Some (d', es)"
  shows "dp_ignored d' = dp_ignored d \<and>
    rel_option (list_all2 (\<lambda>c c'. feed c (kept_events (dp_ignored d) [ev]) = Some c')) (dp_outputs d) (dp_outputs d') \<and>
    rel_option (\<lambda>e e'. feed_alerts e (kept_events (dp_ignored d) [ev]) = Some e') (dp_alerts d) (dp_alerts d') \<and>
    seen_calls es = [if ev_Command ev \<in> dp_ignored d then CIgnored (ev_Command ev) else CRecord ev]"
proof (cases "ev_Command ev \<in> dp_ignored d")
  case True
  with assms show ?thesis
    by (auto simp: dispatch_event_def kept_events_def seen_calls_def option.rel_eq list.rel_eq)
next
  case False
  then obtain outs gs al fs where "offer (Dispatch ev) (dp_outputs d) = Some (outs, gs)"
    "offer (\<lambda>e. Engine_Submit e ev) (dp_alerts d) = Some (al, fs)"
    and d': "d' = d\<lparr>dp_outputs := outs, dp_alerts := al\<rparr>" "es = Metric (CRecord ev) # gs @ fs"
    using assms by (auto simp: dispatch_event_def split: option.splits)
  from offer_outputs [OF this(1)] offer_alerts [OF this(2)] False d' show ?thesis
    by (simp add: kept_events_def seen_calls_def)
qed

lemma submit_all_append:
  "submit_all f s (xs @ ys) = (case submit_all f s xs of None \<Rightarrow> None | Some s' \<Rightarrow> submit_all f s' ys)"
  by (induction xs arbitrary: s) (simp_all split: option.split)

lemma kept_events_Cons: "kept_events ign (ev # evs) = kept_events ign [ev] @ kept_events ign evs"
  by (simp add: kept_events_def)

lemma fed_trans:
  assumes "list_all2 (\<lambda>c c'. feed c xs = Some c') m m1" "list_all2 (\<lambda>c c'. feed c ys = Some c') m1 m2"
  shows "list_all2 (\<lambda>c c'. feed c (xs @ ys) = Some c') m m2"
  using assms by (rule list_all2_trans [rotated]) (simp add: submit_all_append)

lemma rel_option_trans:
  assumes "rel_option P x y" "rel_option Q y z" "\<And>a b c. P a b \<Longrightarrow> Q b c \<Longrightarrow> R a c"
  shows "rel_option R x z"
  using assms by (cases x; cases y; cases z) auto

lemma dispatch_all_Some:
  "dispatch_all evs d = Some (d', es) \<Longrightarrow> dp_ignored d' = dp_ignored d \<and>
    rel_option (list_all2 (\<lambda>c c'. feed c (kept_events (dp_ignored d) evs) = Some c')) (dp_outputs d) (dp_outputs d') \<and>
    rel_option (\<lambda>e e'. feed_alerts e (kept_events (dp_ignored d) evs) = Some e') (dp_alerts d) (dp_alerts d') \<and>
    seen_calls es = map (\<lambda>ev. if ev_Command ev \<in> dp_ignored d then CIgnored (ev_Command ev) else CRecord ev) evs"
proof (induction evs arbitrary: d es)
  case Nil
  then show ?case by (auto simp: kept_events_def seen_calls_def option.rel_eq list.rel_eq)
next
  case (Cons ev evs)
  then obtain d1 es1 es2 where s: "dispatch_event ev d = Some (d1, es1)" "dispatch_all evs d1 = Some (d', es2)"
    "es = es1 @ es2" by (auto split: option.splits)
  note one = dispatch_event_Some [OF s(1)] and rest = Cons.IH [OF s(2)]
  have "rel_option (list_all2 (\<lambda>c c'. feed c (kept_events (dp_ignored d) [ev] @ kept_events (dp_ignored d) evs) = Some c'))
      (dp_outputs d) (dp_outputs d')"
    using one rest by (auto intro: rel_option_trans fed_trans)
  moreover have "rel_option (\<lambda>e e'. feed_alerts e (kept_events (dp_ignored d) [ev] @ kept_events (dp_ignored d) evs) = Some e')
      (dp_alerts d) (dp_alerts d')"
    using one rest by (auto intro: rel_option_trans simp: submit_all_append)
  ultimately show ?case
    using one rest s(3) by (subst (1 2) kept_events_Cons) simp
qed

definition dropping :: "dispatcher \<Rightarrow> bool" where
  "dropping d \<longleftrightarrow> (\<forall>m. dp_outputs d = Some m \<longrightarrow> (\<forall>c\<in>set m. c_drop c)) \<and> (\<forall>e. dp_alerts d = Some e \<longrightarrow> en_drop e)"

lemma dispatch_event_drop:
  assumes "dropping d"
  shows "\<exists>d' es. dispatch_event ev d = Some (d', es) \<and> dropping d'"
proof (cases "ev_Command ev \<in> dp_ignored d")
  case True
  with assms show ?thesis by (simp add: dispatch_event_def)
next
  case False
  have "\<exists>outs es. offer (Dispatch ev) (dp_outputs d) = Some (outs, es) \<and> (\<forall>m. outs = Some m \<longrightarrow> (\<forall>c\<in>set m. c_drop c))"
    using assms Dispatch_drop [of _ ev] by (fastforce simp: offer_def dropping_def split: option.split)
  moreover have "\<exists>al fs. offer (\<lambda>e. Engine_Submit e ev) (dp_alerts d) = Some (al, fs) \<and> (\<forall>e. al = Some e \<longrightarrow> en_drop e)"
  proof (cases "dp_alerts d")
    case (Some e)
    then obtain e' fs where e': "Engine_Submit e ev = Some (e', fs)"
      using assms engine_queue.submit_never_blocks [of e ev] by (auto simp: dropping_def)
    then have "en_drop e'" using engine_queue.submit_frame [of e ev e'] assms Some by (auto simp: dropping_def)
    with Some e' show ?thesis by (simp add: offer_def)
  qed (simp add: offer_def)
  ultimately show ?thesis using False by (auto simp: dispatch_event_def dropping_def)
qed

lemma dispatch_all_drop: "dropping d \<Longrightarrow> \<exists>d' es. dispatch_all evs d = Some (d', es)"
proof (induction evs arbitrary: d)
  case (Cons ev evs)
  obtain d1 es where d1: "dispatch_event ev d = Some (d1, es)" "dropping d1"
    using dispatch_event_drop [OF Cons.prems] by blast
  with Cons.IH [OF d1(2)] show ?case by auto
qed simp

section \<open>Properties of the dispatcher\<close>

text \<open>
  C10: The dispatcher refines independent queues fed with the filtered stream. Whatever the drop
  policies and however full the queues are, when it gets through a sequence of events, every output
  queue and the alert queue are as if the events whose command is not ignored had been submitted
  to that queue alone, in order; every event is counted once, as processed or as ignored, in order;
  and the filter is unchanged.
\<close>

theorem dispatcher_refines:
  assumes "dispatch_all evs d = Some (d', es)"
  shows "dp_ignored d' = dp_ignored d \<and>
    rel_option (list_all2 (\<lambda>c c'. submit_all (\<lambda>c ev. map_option fst (Submit c ev)) c
        (filter (\<lambda>ev. ev_Command ev \<notin> dp_ignored d) evs) = Some c')) (dp_outputs d) (dp_outputs d') \<and>
    rel_option (\<lambda>e e'. submit_all (\<lambda>e ev. map_option fst (Engine_Submit e ev)) e
        (filter (\<lambda>ev. ev_Command ev \<notin> dp_ignored d) evs) = Some e') (dp_alerts d) (dp_alerts d') \<and>
    filter is_seen (metric_calls es) =
      map (\<lambda>ev. if ev_Command ev \<in> dp_ignored d then CIgnored (ev_Command ev) else CRecord ev) evs"
  using dispatch_all_Some [OF assms] unfolding kept_events_def seen_calls_def .

text \<open>
  With the drop policy the dispatcher never waits: for every sequence of events it gets through,
  each queue then holds what it held followed by the oldest kept events that fit, and each drop
  counter has grown by the number of those that did not.
\<close>

theorem dispatcher_never_waits:
  assumes "\<forall>m. dp_outputs d = Some m \<longrightarrow> (\<forall>c\<in>set m. c_drop c \<and> QueueDepth c \<le> QueueCapacity c)"
    and "\<forall>e. dp_alerts d = Some e \<longrightarrow> en_drop e \<and> Engine_QueueDepth e \<le> Engine_QueueCapacity e"
    and "kept = filter (\<lambda>ev. ev_Command ev \<notin> dp_ignored d) evs"
  shows "\<exists>d' es. dispatch_all evs d = Some (d', es) \<and>
    rel_option (list_all2 (\<lambda>c c'. ch_buf (c_in c') = ch_buf (c_in c) @ take (QueueCapacity c - QueueDepth c) kept \<and>
        c_dropped c' = c_dropped c + of_nat (length kept - (QueueCapacity c - QueueDepth c))))
      (dp_outputs d) (dp_outputs d') \<and>
    rel_option (\<lambda>e e'. ch_buf (en_in e') = ch_buf (en_in e) @ take (Engine_QueueCapacity e - Engine_QueueDepth e) kept \<and>
        en_dropped e' = en_dropped e + of_nat (length kept - (Engine_QueueCapacity e - Engine_QueueDepth e)))
      (dp_alerts d) (dp_alerts d')"
proof -
  have "dropping d" using assms(1,2) by (auto simp: dropping_def)
  then obtain d' es where r: "dispatch_all evs d = Some (d', es)" using dispatch_all_drop by blast
  note fed = dispatch_all_Some [OF r, unfolded kept_events_def, folded assms(3)]
  have "rel_option (list_all2 (\<lambda>c c'. ch_buf (c_in c') = ch_buf (c_in c) @ take (QueueCapacity c - QueueDepth c) kept \<and>
        c_dropped c' = c_dropped c + of_nat (length kept - (QueueCapacity c - QueueDepth c))))
      (dp_outputs d) (dp_outputs d')"
  proof (cases "dp_outputs d")
    case (Some m)
    then obtain m' where m': "dp_outputs d' = Some m'" "list_all2 (\<lambda>c c'. feed c kept = Some c') m m'"
      using fed by (auto simp: option_rel_Some1)
    have "list_all2 (\<lambda>c c'. ch_buf (c_in c') = ch_buf (c_in c) @ take (QueueCapacity c - QueueDepth c) kept \<and>
        c_dropped c' = c_dropped c + of_nat (length kept - (QueueCapacity c - QueueDepth c))) m m'"
      using m'(2)
    proof (rule list.rel_mono_strong)
      fix c c'
      assume c: "c \<in> set m" "feed c kept = Some c'"
      with consumer_queue.submit_all_drop [of c kept] assms(1) Some
      show "ch_buf (c_in c') = ch_buf (c_in c) @ take (QueueCapacity c - QueueDepth c) kept \<and>
        c_dropped c' = c_dropped c + of_nat (length kept - (QueueCapacity c - QueueDepth c))"
        by (auto simp: QueueDepth_def)
    qed
    with Some m'(1) show ?thesis by simp
  qed (use fed in simp)
  moreover have "rel_option (\<lambda>e e'. ch_buf (en_in e') = ch_buf (en_in e) @ take (Engine_QueueCapacity e - Engine_QueueDepth e) kept \<and>
        en_dropped e' = en_dropped e + of_nat (length kept - (Engine_QueueCapacity e - Engine_QueueDepth e)))
      (dp_alerts d) (dp_alerts d')"
  proof (cases "dp_alerts d")
    case (Some e)
    with fed engine_burst [of e kept] assms(2) show ?thesis by (auto simp: option_rel_Some1)
  qed (use fed in simp)
  ultimately show ?thesis using r by blast
qed

definition sample_dispatcher :: dispatcher where
  "sample_dispatcher = \<lparr>dp_outputs = Some [sample_consumer True], dp_alerts = None, dp_ignored = {''PING''}\<rparr>"

definition sample_burst :: "Event list" where
  "sample_burst = [sample_event ''PING'' [], sample_event ''SET'' [''k'', ''v''], sample_event ''GET'' [''k'']]"

theorem dispatcher_never_waits_witness:
  "\<exists>d' es c. dispatch_all sample_burst sample_dispatcher = Some (d', es) \<and> dp_outputs d' = Some [c] \<and>
     map ev_Command (ch_buf (c_in c)) = [''SET''] \<and> c_dropped c = 1"
  using dispatcher_never_waits [of sample_dispatcher "[sample_event ''SET'' [''k'', ''v''], sample_event ''GET'' [''k'']]" sample_burst]
  by (auto simp: sample_dispatcher_def sample_burst_def sample_consumer_def sample_event_def QueueDepth_def QueueCapacity_def
      option_rel_Some1 list_all2_Cons1)

theorem dispatcher_refines_witness:
  "\<exists>d' es. dispatch_all sample_burst sample_dispatcher = Some (d', es) \<and>
     map ev_Command (map (\<lambda>c. case c of CRecord ev \<Rightarrow> ev | _ \<Rightarrow> sample_event ''?'' []) (filter is_seen (metric_calls es))) =
       [''?'', ''SET'', ''GET'']"
proof -
  have "dispatch_all sample_burst sample_dispatcher \<noteq> None" by code_simp
  then obtain d' es where r: "dispatch_all sample_burst sample_dispatcher = Some (d', es)" by auto
  with dispatcher_refines [OF r] show ?thesis by (simp add: sample_dispatcher_def sample_burst_def sample_event_def)
qed

end
