(* ===== verification/Lifecycle.thy ===== *)
theory Lifecycle
  imports App "HOL-Library.Multiset"
begin

text \<open>
  The second half of \<^verbatim>\<open>Run\<close> in \<^verbatim>\<open>internal/app/app.go\<close> and the process around it in
  \<^verbatim>\<open>cmd/redis-watcher/main.go\<close>: the goroutines that are started, the shared context that one
  signal or the end of the monitor cancels, the wait group, the second signal, and the exit status.
  A run is a sequence of what happens from outside: a goroutine returns, a signal arrives, the main
  goroutine gets past its wait.
\<close>

section \<open>The goroutines\<close>

datatype component = RoleChecker | MetricsServer | Outputs | AlertEngine | Dispatcher | MonitorClient

text \<open>The tag of its error report; the dispatcher has no error to report.\<close>

fun component_tag :: "component \<Rightarrow> string" where
  "component_tag RoleChecker = ''role_checker''"
| "component_tag MetricsServer = ''metrics_server''"
| "component_tag Outputs = ''outputs''"
| "component_tag AlertEngine = ''alert_engine''"
| "component_tag Dispatcher = []"
| "component_tag MonitorClient = ''monitor''"

text \<open>What \<^verbatim>\<open>wg.Add\<close> counts, in the order in which \<^verbatim>\<open>Run\<close> starts them.\<close>

definition started :: "app \<Rightarrow> component list" where
  "started a =
     (if a_role a = None then [] else [RoleChecker]) @
     (if a_server a = None then [] else [MetricsServer]) @
     (if pl_outputs (a_pipeline a) = None then [] else [Outputs]) @
     (if pl_alerts (a_pipeline a) = None then [] else [AlertEngine]) @
     [Dispatcher, MonitorClient]"

text \<open>The error with which a goroutine's \<^verbatim>\<open>Run\<close> returns; the dispatcher has none.\<close>

datatype exit_error = Canceled | Failed string

record run_sys =
  rs_running :: "component list"
  rs_cancelled :: bool
  rs_signals :: nat
  rs_exit :: "int option"
  rs_reports :: "tags list"

definition run_start :: "app \<Rightarrow> run_sys" where
  "run_start a = \<lparr>rs_running = started a, rs_cancelled = False, rs_signals = 0, rs_exit = None, rs_reports = []\<rparr>"

definition exit_reports :: "component \<Rightarrow> exit_error option \<Rightarrow> tags list" where
  "exit_reports c err =
     (case err of
        None \<Rightarrow> []
      | Some e \<Rightarrow>
          if c = Dispatcher \<or> c = MonitorClient \<and> e = Canceled then []
          else [[(''component'', component_tag c)]])"

text \<open>
  A goroutine returns: it reports its error and leaves the wait group; only the monitor's return
  cancels the shared context. The first signal cancels it too, the second ends the process with
  status 1.
\<close>

definition goroutine_returns :: "component \<Rightarrow> exit_error option \<Rightarrow> run_sys \<Rightarrow> run_sys" where
  "goroutine_returns c err s =
     s\<lparr>rs_running := remove1 c (rs_running s), rs_reports := rs_reports s @ exit_reports c err,
       rs_cancelled := (rs_cancelled s \<or> c = MonitorClient)\<rparr>"

definition signal_received :: "run_sys \<Rightarrow> run_sys" where
  "signal_received s =
     (if rs_signals s = 0 then s\<lparr>rs_signals := 1, rs_cancelled := True\<rparr>
      else s\<lparr>rs_signals := Suc (rs_signals s), rs_exit := Some 1\<rparr>)"

datatype run_event = Finished component "exit_error option" | Signal | WaitDone

text \<open>
  One event; \<open>None\<close> when it cannot happen. The main goroutine gets past
  \<^verbatim>\<open><-runCtx.Done()\<close> and \<^verbatim>\<open>wg.Wait()\<close> when the context is cancelled and no goroutine
  runs; then \<^verbatim>\<open>Run\<close> returns nil and the process ends with status 0.
\<close>

definition run_next :: "run_event \<Rightarrow> run_sys \<Rightarrow> run_sys option" where
  "run_next e s =
     (if rs_exit s \<noteq> None then None
      else case e of
        Finished c err \<Rightarrow> if c \<in> set (rs_running s) then Some (goroutine_returns c err s) else None
      | Signal \<Rightarrow> Some (signal_received s)
      | WaitDone \<Rightarrow> if rs_cancelled s \<and> rs_running s = [] then Some (s\<lparr>rs_exit := Some 0\<rparr>) else None)"

fun run_events :: "run_event list \<Rightarrow> run_sys \<Rightarrow> run_sys option" where
  "run_events [] s = Some s"
| "run_events (e # es) s = (case run_next e s of None \<Rightarrow> None | Some s1 \<Rightarrow> run_events es s1)"

text \<open>\<^verbatim>\<open>main\<close> after the flags: print the version, fail when start-up fails, or run.\<close>

datatype main_outcome = PrintedVersion string | StartFailed app_error | Started run_sys

definition main_start ::
  "unicode \<Rightarrow> regexp_engine \<Rightarrow> (ClientOptions \<Rightarrow> string option) \<Rightarrow> loader \<Rightarrow> int \<Rightarrow> BuildInfo \<Rightarrow> string \<Rightarrow> bool \<Rightarrow>
     main_outcome" where
  "main_start U rx sdk ld now info configPath showVersion =
     (if showVersion then
        PrintedVersion (''redis-watcher '' @ bi_Version info @ '' (commit '' @ bi_Commit info @ '', built '' @ bi_Date info @ '')'' @ [LF])
      else case startup U rx sdk ld now configPath info of
             Inl e \<Rightarrow> StartFailed e
           | Inr a \<Rightarrow> Started (run_start a))"

definition main_status :: "main_outcome \<Rightarrow> int option" where
  "main_status out =
     (case out of PrintedVersion v \<Rightarrow> Some 0 | StartFailed e \<Rightarrow> Some 1 | Started s \<Rightarrow> rs_exit s)"

section \<open>Invariant of a run\<close>

lemmas run_next_defs = run_next_def goroutine_returns_def signal_received_def

definition signals_in :: "run_event list \<Rightarrow> nat" where
  "signals_in es = length (filter (\<lambda>e. e = Signal) es)"

definition finished_in :: "run_event list \<Rightarrow> component list" where
  "finished_in es = concat (map (\<lambda>e. case e of Finished c err \<Rightarrow> [c] | _ \<Rightarrow> []) es)"

definition reports_in :: "run_event list \<Rightarrow> tags list" where
  "reports_in es = concat (map (\<lambda>e. case e of Finished c err \<Rightarrow> exit_reports c err | _ \<Rightarrow> []) es)"

definition run_inv :: "component list \<Rightarrow> run_event list \<Rightarrow> run_sys \<Rightarrow> bool" where
  "run_inv cs es s \<longleftrightarrow>
     mset (rs_running s) + mset (finished_in es) = mset cs \<and>
     rs_signals s = signals_in es \<and> rs_reports s = reports_in es \<and>
     (rs_cancelled s \<longleftrightarrow> MonitorClient \<in> set (finished_in es) \<or> 0 < signals_in es) \<and>
     (rs_exit s = None \<longrightarrow> signals_in es \<le> 1) \<and>
     (rs_exit s \<noteq> None \<longrightarrow>
        rs_exit s = Some 1 \<and> signals_in es = 2 \<or>
        rs_exit s = Some 0 \<and> signals_in es \<le> 1 \<and> rs_cancelled s \<and> rs_running s = [])"

lemma run_views [simp]:
  "signals_in [] = 0" "signals_in (es @ [e]) = signals_in es + (if e = Signal then 1 else 0)"
  "finished_in [] = []" "finished_in (es @ [Finished c err]) = finished_in es @ [c]"
  "finished_in (es @ [Signal]) = finished_in es" "finished_in (es @ [WaitDone]) = finished_in es"
  "reports_in [] = []" "reports_in (es @ [Finished c err]) = reports_in es @ exit_reports c err"
  "reports_in (es @ [Signal]) = reports_in es" "reports_in (es @ [WaitDone]) = reports_in es"
  by (simp_all add: signals_in_def finished_in_def reports_in_def)

lemma run_events_append:
  "run_events (a @ b) s = (case run_events a s of None \<Rightarrow> None | Some s1 \<Rightarrow> run_events b s1)"
  by (induction a arbitrary: s) (simp_all split: option.split)

lemma run_inv_step:
  assumes "run_inv cs es s" "run_next e s = Some s'"
  shows "run_inv cs (es @ [e]) s'"
proof (cases e)
  case (Finished c err)
  with assms(2) have c: "c \<in> set (rs_running s)" and x: "rs_exit s = None" and
    s': "s' = s\<lparr>rs_running := remove1 c (rs_running s), rs_reports := rs_reports s @ exit_reports c err,
      rs_cancelled := (rs_cancelled s \<or> c = MonitorClient)\<rparr>"
    by (auto simp: run_next_defs split: if_splits)
  have "add_mset c (mset (rs_running s) - {#c#}) = mset (rs_running s)" using c by simp
  then have "mset (remove1 c (rs_running s)) + mset (finished_in es @ [c]) = mset (rs_running s) + mset (finished_in es)"
    by (metis add_mset_add_single mset.simps(1,2) mset_append mset_remove1 union_assoc union_commute)
  with assms(1) x show ?thesis unfolding s' Finished by (auto simp: run_inv_def)
next
  case Signal
  with assms show ?thesis by (auto simp: run_inv_def run_next_defs split: if_splits)
next
  case WaitDone
  with assms show ?thesis by (auto simp: run_inv_def run_next_defs split: if_splits)
qed

lemma run_inv_start: "run_inv (started a) [] (run_start a)"
  by (simp add: run_inv_def run_start_def)

lemma run_events_inv:
  assumes "run_events es (run_start a) = Some s"
  shows "run_inv (started a) es s"
  using assms
proof (induction es arbitrary: s rule: rev_induct)
  case Nil
  then show ?case using run_inv_start [of a] by simp
next
  case (snoc e es)
  then obtain s1 where "run_events es (run_start a) = Some s1" "run_next e s1 = Some s"
    by (auto simp: run_events_append split: option.splits)
  with snoc.IH run_inv_step show ?case by blast
qed

lemma distinct_started: "distinct (started a)"
  by (simp add: started_def)

section \<open>Properties\<close>


text \<open>
  Shutdown completes. From every state in which the context is cancelled and the process still
  runs, once each of the remaining goroutines returns, in any order and with any errors, and no
  further signal arrives, the process exits with status 0.
\<close>

theorem shutdown_completes:
  assumes "rs_cancelled s" "rs_exit s = None" and "mset (map fst fs) = mset (rs_running s)"
  shows "\<exists>s'. run_events (map (\<lambda>(c, err). Finished c err) fs @ [WaitDone]) s = Some s' \<and> rs_exit s' = Some 0"
  using assms
proof (induction fs arbitrary: s)
  case Nil
  then show ?case by (simp add: run_next_defs)
next
  case (Cons f fs)
  obtain c err where f: "f = (c, err)" by (cases f)
  let ?s = "s\<lparr>rs_running := remove1 c (rs_running s), rs_reports := rs_reports s @ exit_reports c err,
    rs_cancelled := (rs_cancelled s \<or> c = MonitorClient)\<rparr>"
  have c: "c \<in> set (rs_running s)" using mset_eq_setD [OF Cons.prems(3)] f by auto
  have "mset (map fst fs) = mset (rs_running s) - {#c#}" using Cons.prems(3) f by (metis add_mset_remove_trivial fst_conv list.simps(9) mset.simps(2))
  with Cons.IH [of ?s] Cons.prems f c show ?case by (simp add: run_next_defs)
qed

text \<open>A run of the application with two standard outputs: the monitor fails, the others follow.\<close>

definition sample_run :: "run_event list \<Rightarrow> run_sys option" where
  "sample_run es = (case sample_startup twin_loader of Inl _ \<Rightarrow> None | Inr a \<Rightarrow> run_events es (run_start a))"

definition monitor_fails :: "run_event list" where
  "monitor_fails = [Finished MonitorClient (Some (Failed ''i/o timeout'')), Finished Dispatcher None,
     Finished Outputs None, Finished MetricsServer None, Finished RoleChecker None, WaitDone]"


theorem shutdown_completes_witness:
  "\<exists>s. run_events (map (\<lambda>(c, err). Finished c err) [(Dispatcher, None), (MonitorClient, Some Canceled)] @ [WaitDone])
     \<lparr>rs_running = [Dispatcher, MonitorClient], rs_cancelled = True, rs_signals = 1, rs_exit = None, rs_reports = []\<rparr> = Some s \<and>
     rs_exit s = Some 0"
  by (rule shutdown_completes) simp_all

end
