(* ===== verification/Server.thy ===== *)
theory Server
  imports Support Encode "HOL-Library.List_Lexorder" "HOL-Library.Char_ord"
begin

text \<open>
  The HTTP server of \<^verbatim>\<open>internal/metrics/server.go\<close>: the routes that \<^verbatim>\<open>NewServer\<close>
  registers, the answers of the probes as they go over the wire, and how \<^verbatim>\<open>Run\<close> ends. The
  multiplexer is that of \<^verbatim>\<open>net/http\<close> on patterns and requests that are plain paths; the
  answer of the scrape handler, which the Prometheus library gives, is a parameter.
\<close>

section \<open>The multiplexer\<close>

datatype handler = ScrapeHandler | HealthzHandler | ReadyzHandler

datatype routed = Serve handler | RedirectTo string | NotFound

type_synonym mux = "(string \<times> handler) list"

text \<open>
  A plain path begins with a slash and has none of the characters that make \<^verbatim>\<open>ServeMux\<close> read
  a pattern differently: the blanks after a method, the braces of a wildcard, the percent sign of an
  escape. Its segments are clean, so that a request for it is not redirected to another spelling. Two
  plain patterns conflict exactly when they are equal.
\<close>

fun double_slash :: "string \<Rightarrow> bool" where
  "double_slash (a # b # s) \<longleftrightarrow> a = CHR ''/'' \<and> b = CHR ''/'' \<or> double_slash (b # s)"
| "double_slash s \<longleftrightarrow> False"

definition plain_path :: "string \<Rightarrow> bool" where
  "plain_path p \<longleftrightarrow> p \<noteq> [] \<and> hd p = CHR ''/'' \<and>
     list_all (\<lambda>c. c \<notin> set [SP, TAB, CHR ''{'', CHR ''}'', CHR ''%'']) p \<and>
     \<not> double_slash p \<and>
     list_all (\<lambda>seg. seg \<noteq> ''.'' \<and> seg \<noteq> ''..'') (Split (tl p) ''/'')"

definition mux_Handle :: "string \<Rightarrow> handler \<Rightarrow> mux \<Rightarrow> mux option" where
  "mux_Handle pattern h m = (if pattern = [] \<or> map_of m pattern \<noteq> None then None else Some (m @ [(pattern, h)]))"

definition ends_slash :: "string \<Rightarrow> bool" where
  "ends_slash p \<longleftrightarrow> p \<noteq> [] \<and> last p = CHR ''/''"

text \<open>Of the patterns that end in a slash and are a prefix of the path, the longest.\<close>

fun longest_subtree :: "mux \<Rightarrow> string \<Rightarrow> (string \<times> handler) option" where
  "longest_subtree [] path = None"
| "longest_subtree ((p, h) # m) path =
     (case longest_subtree m path of
        None \<Rightarrow> if ends_slash p \<and> HasPrefix path p then Some (p, h) else None
      | Some (q, k) \<Rightarrow> if ends_slash p \<and> HasPrefix path p \<and> length q < length p then Some (p, h) else Some (q, k))"

definition mux_route :: "mux \<Rightarrow> string \<Rightarrow> routed" where
  "mux_route m path =
     (case map_of m path of
        Some h \<Rightarrow> Serve h
      | None \<Rightarrow>
          if \<not> ends_slash path \<and> map_of m (path @ ''/'') \<noteq> None then RedirectTo (path @ ''/'')
          else (case longest_subtree m path of Some (p, h) \<Rightarrow> Serve h | None \<Rightarrow> NotFound))"

section \<open>The server\<close>

text \<open>What \<^verbatim>\<open>WrapHTTP\<close> puts around a handler: nothing, or the SDK's handler with its option.\<close>

datatype wrapping = Unwrapped | SentryHandler bool

definition WrapHTTP :: "ClientOptions option \<Rightarrow> wrapping" where
  "WrapHTTP client = (if \<not> Enabled client then Unwrapped else SentryHandler True)"

record Server =
  srv_addr :: string
  srv_path :: string
  srv_mux :: mux
  srv_handler :: wrapping
  srv_ReadHeaderTimeout :: int

text \<open>\<^verbatim>\<open>NewServer\<close>; \<open>None\<close> is the panic of a registration.\<close>

definition NewServer :: "ClientOptions option \<Rightarrow> string \<Rightarrow> string \<Rightarrow> Server option" where
  "NewServer client addr path =
     Option.bind (mux_Handle path ScrapeHandler []) (\<lambda>m1.
     Option.bind (mux_Handle ''/healthz'' HealthzHandler m1) (\<lambda>m2.
     Option.bind (mux_Handle ''/readyz'' ReadyzHandler m2) (\<lambda>m3.
       Some \<lparr>srv_addr = addr, srv_path = path, srv_mux = m3, srv_handler = WrapHTTP client,
             srv_ReadHeaderTimeout = 5 * Second\<rparr>)))"

section \<open>Answers\<close>

text \<open>The content type is the one the handler sets.\<close>

record response =
  re_status :: int
  re_type :: "string option"
  re_body :: string

definition json_bool :: "bool \<Rightarrow> string" where
  "json_bool b = (if b then ''true'' else ''false'')"

text \<open>A slice that was never appended to is nil, which is encoded as \<^verbatim>\<open>null\<close>.\<close>

definition json_slice :: "string list \<Rightarrow> string" where
  "json_slice xs = (if xs = [] then ''null'' else json_strings xs)"

text \<open>
  The body of \<^verbatim>\<open>/readyz\<close>. The encoder sorts the keys of a map; \<open>outs\<close> and \<open>chans\<close> are the
  failing sets in the order in which the range over each map yielded them.
\<close>

definition readyz_body :: "bool \<Rightarrow> ReadinessState \<Rightarrow> string list \<Rightarrow> string list \<Rightarrow> string" where
  "readyz_body ready state outs chans =
     json_object
       [json_member ''failing_alert_channels'' (json_slice chans),
        json_member ''failing_outputs'' (json_slice outs),
        json_member ''monitor_connected'' (json_bool (rs_MonitorConnected state)),
        json_member ''ready'' (json_bool ready),
        json_member ''role_known'' (json_bool (rs_RoleKnown state))] @ [LF]"

definition readyz_response :: "(string set \<Rightarrow> string list) \<Rightarrow> Registry \<Rightarrow> response" where
  "readyz_response order r =
     (case readyzHandler r of (status, ready, state) \<Rightarrow>
        \<lparr>re_status = status, re_type = Some ''application/json'',
         re_body = readyz_body ready state (order (rs_FailingOutputs state)) (order (rs_FailingAlertChannels state))\<rparr>)"

definition healthz_response :: "Registry \<Rightarrow> response" where
  "healthz_response r = (case healthzHandler r of (status, body) \<Rightarrow>
     \<lparr>re_status = status, re_type = None, re_body = body\<rparr>)"

text \<open>
  One request. \<open>scrape\<close> is the answer of the Prometheus handler on the registry, \<open>order\<close> the
  enumeration of a set by a range over its map; \<open>None\<close> is a redirect or a 404 of the multiplexer itself.
\<close>

definition ServeHTTP ::
  "(Registry \<Rightarrow> response) \<Rightarrow> (string set \<Rightarrow> string list) \<Rightarrow> Server \<Rightarrow> Registry \<Rightarrow> string \<Rightarrow> response option" where
  "ServeHTTP scrape order s r path =
     (case mux_route (srv_mux s) path of
        Serve ScrapeHandler \<Rightarrow> Some (scrape r)
      | Serve HealthzHandler \<Rightarrow> Some (healthz_response r)
      | Serve ReadyzHandler \<Rightarrow> Some (readyz_response order r)
      | RedirectTo q \<Rightarrow> None
      | NotFound \<Rightarrow> None)"

section \<open>Running\<close>

datatype listen_error = ErrServerClosed | ListenError string

text \<open>What the serving goroutine leaves in \<^verbatim>\<open>errCh\<close> before it closes it.\<close>

definition errCh_value :: "listen_error option \<Rightarrow> string option" where
  "errCh_value e = (case e of Some (ListenError msg) \<Rightarrow> Some msg | _ \<Rightarrow> None)"

text \<open>The case that the select of \<^verbatim>\<open>Run\<close> takes.\<close>

datatype run_select = RunCtxDone | RunListenReturned "listen_error option"

text \<open>
  The result of \<^verbatim>\<open>Run\<close>, and the time it grants to open requests when it shuts the server down.
\<close>

fun Server_Run :: "run_select \<Rightarrow> string option \<times> int option" where
  "Server_Run RunCtxDone = (None, Some (5 * Second))"
| "Server_Run (RunListenReturned e) = (errCh_value e, None)"

section \<open>Properties\<close>

lemma NewServer_Some:
  "NewServer client addr path = Some s \<longleftrightarrow>
     path \<notin> {[], ''/healthz'', ''/readyz''} \<and>
     s = \<lparr>srv_addr = addr, srv_path = path,
          srv_mux = [(path, ScrapeHandler), (''/healthz'', HealthzHandler), (''/readyz'', ReadyzHandler)],
          srv_handler = WrapHTTP client, srv_ReadHeaderTimeout = 5 * Second\<rparr>"
  by (auto simp: NewServer_def mux_Handle_def)

lemma NewServer_None: "NewServer client addr path = None \<longleftrightarrow> path \<in> {[], ''/healthz'', ''/readyz''}"
  using NewServer_Some [of client addr path] by (cases "NewServer client addr path") auto

lemma double_slash_end: "double_slash (q @ ''//'')"
  by (induction q rule: double_slash.induct) auto

lemma plain_nonempty [simp]: "plain_path p \<Longrightarrow> p \<noteq> []"
  by (simp add: plain_path_def)

text \<open>
  C29: The routes of the server, in full. When the server is built, a request is answered by the scrape
  handler at the configured path, by the probes at \<^verbatim>\<open>/healthz\<close> and \<^verbatim>\<open>/readyz\<close>, whatever
  the configured path; a configured path that ends in a slash also serves everything below it that is
  not a probe, and the path without the slash is redirected to it. Nothing else is found.
\<close>

theorem server_routes:
  assumes "NewServer client addr path = Some s" and "plain_path path" and "plain_path p"
  shows "mux_route (srv_mux s) p =
    (if p = path then Serve ScrapeHandler
     else if p = ''/healthz'' then Serve HealthzHandler
     else if p = ''/readyz'' then Serve ReadyzHandler
     else if ends_slash path \<and> p @ ''/'' = path then RedirectTo path
     else if ends_slash path \<and> HasPrefix p path then Serve ScrapeHandler
     else NotFound)"
proof -
  have mux: "srv_mux s = [(path, ScrapeHandler), (''/healthz'', HealthzHandler), (''/readyz'', ReadyzHandler)]"
    and path: "path \<noteq> ''/healthz''" "path \<noteq> ''/readyz''"
    using assms(1) by (auto simp: NewServer_Some)
  have "\<not> ends_slash ''/healthz''" "\<not> ends_slash ''/readyz''" by (simp_all add: ends_slash_def)
  then have sub: "longest_subtree (srv_mux s) p = (if ends_slash path \<and> HasPrefix p path then Some (path, ScrapeHandler) else None)"
    by (simp add: mux)
  have noslash: "p @ ''/'' \<noteq> ''/healthz''" "p @ ''/'' \<noteq> ''/readyz''"
    by (metis \<open>\<not> ends_slash ''/healthz''\<close> ends_slash_def last_snoc snoc_eq_iff_butlast,
        metis \<open>\<not> ends_slash ''/readyz''\<close> ends_slash_def last_snoc snoc_eq_iff_butlast)
  have twice: "\<not> ends_slash p" if "p @ ''/'' = path"
  proof
    assume "ends_slash p"
    then obtain q where "p = q @ ''/''" by (metis append_butlast_last_id ends_slash_def)
    with that assms(2) show False by (auto simp: plain_path_def double_slash_end)
  qed
  show ?thesis
    using path noslash twice by (auto simp: mux_route_def sub mux ends_slash_def)
qed

theorem server_routes_witness:
  "\<exists>s. NewServer None ''h:9121'' ''/m/'' = Some s \<and> mux_route (srv_mux s) ''/m/x'' = Serve ScrapeHandler \<and>
     mux_route (srv_mux s) ''/m'' = RedirectTo ''/m/'' \<and> mux_route (srv_mux s) ''/n'' = NotFound"
proof -
  obtain s where s: "NewServer None ''h:9121'' ''/m/'' = Some s" using NewServer_Some by blast
  have "plain_path ''/m/''" "plain_path ''/m/x''" "plain_path ''/m''" "plain_path ''/n''" by code_simp+
  then show ?thesis
    using server_routes [OF s, of "''/m/x''"] server_routes [OF s, of "''/m''"] server_routes [OF s, of "''/n''"] s
    by (simp add: ends_slash_def HasPrefix_def)
qed

lemma failing_finite:
  "finite (reg_failingOutputs (reg_run calls (New_Registry ignored track version commit start))) \<and>
   finite (reg_failingAlertChannels (reg_run calls (New_Registry ignored track version commit start)))"
proof (rule reg_run_inv)
  show "finite (reg_failingOutputs (reg_apply c r)) \<and> finite (reg_failingAlertChannels (reg_apply c r))"
    if "finite (reg_failingOutputs r) \<and> finite (reg_failingAlertChannels r)" for c r
    using that by (cases c) (auto simp: reg_methods Let_def)
qed (simp add: New_Registry_def)

lemma readyz_body_line: "count_list (readyz_body ready state outs chans) LF = 1"
proof -
  have "LF \<notin> set (json_slice xs)" "LF \<notin> set (json_bool b)" for xs b
    by (simp_all add: json_slice_def json_bool_def)
  then have "LF \<notin> set (json_object [json_member ''failing_alert_channels'' (json_slice chans),
        json_member ''failing_outputs'' (json_slice outs),
        json_member ''monitor_connected'' (json_bool (rs_MonitorConnected state)),
        json_member ''ready'' (json_bool ready),
        json_member ''role_known'' (json_bool (rs_RoleKnown state))])"
    by (intro json_object_no_LF) simp
  then show ?thesis by (simp add: readyz_body_def count_list_0_iff)
qed

lemma server_route_probe:
  "NewServer client addr path = Some s \<Longrightarrow> mux_route (srv_mux s) ''/readyz'' = Serve ReadyzHandler"
  by (auto simp: NewServer_Some mux_route_def)

text \<open>
  C28: The answer of \<^verbatim>\<open>/readyz\<close> over HTTP and a scrape tell the same story. After any sequence
  of metrics calls, a request for it gets a JSON line that lists exactly the outputs and the alert
  channels whose failing gauge is 1, each once, and \<^verbatim>\<open>null\<close> for none; its MONITOR member is the
  gauge; its \<^verbatim>\<open>ready\<close> member is true exactly when the status is 200, which is when MONITOR is
  connected, a role is known and both lists are empty.
\<close>

theorem readyz_over_http:
  fixes calls ignored track version commit start
  defines "r \<equiv> reg_run calls (New_Registry ignored track version commit start)"
  assumes "NewServer client addr path = Some s"
    and order: "\<And>S. finite S \<Longrightarrow> set (order S) = S \<and> distinct (order S)"
  shows "\<exists>outs chans resp. ServeHTTP scrape order s r ''/readyz'' = Some resp \<and>
    set outs = {out. gauge_value (reg_ops r) ''output_failing'' [out] = Some 1} \<and> distinct outs \<and>
    set chans = {ch. gauge_value (reg_ops r) ''alert_channel_failing'' [ch] = Some 1} \<and> distinct chans \<and>
    (re_status resp = 200 \<longleftrightarrow> gauge_value (reg_ops r) ''monitor_connected'' [] = Some 1 \<and> reg_roleKnown r \<and>
       outs = [] \<and> chans = []) \<and> re_status resp \<in> {200, 503} \<and>
    count_list (re_body resp) LF = 1 \<and>
    re_body resp = json_object
      [json_member ''failing_alert_channels'' (json_slice chans),
       json_member ''failing_outputs'' (json_slice outs),
       json_member ''monitor_connected'' (json_bool (gauge_value (reg_ops r) ''monitor_connected'' [] = Some 1)),
       json_member ''ready'' (json_bool (re_status resp = 200)),
       json_member ''role_known'' (json_bool (reg_roleKnown r))] @ [LF]"
proof -
  let ?outs = "order (reg_failingOutputs r)" and ?chans = "order (reg_failingAlertChannels r)"
  let ?resp = "readyz_response order r"
  have fin: "finite (reg_failingOutputs r)" "finite (reg_failingAlertChannels r)"
    using failing_finite unfolding r_def by blast+
  have "health_inv (New_Registry ignored track version commit start)" by (simp add: health_inv_def New_Registry_def)
  then have health: "health_inv r" using reg_run_inv [of health_inv, OF health_inv_apply] unfolding r_def by blast
  have "ServeHTTP scrape order s r ''/readyz'' = Some ?resp"
    using server_route_probe [OF assms(2)] by (simp add: ServeHTTP_def)
  moreover have "set ?outs = {out. gauge_value (reg_ops r) ''output_failing'' [out] = Some 1}" "distinct ?outs"
    "set ?chans = {ch. gauge_value (reg_ops r) ''alert_channel_failing'' [ch] = Some 1}" "distinct ?chans"
    using order [OF fin(1)] order [OF fin(2)] health by (auto simp: health_inv_def)
  moreover have "reg_failingOutputs r = {} \<longleftrightarrow> ?outs = []" "reg_failingAlertChannels r = {} \<longleftrightarrow> ?chans = []"
    using order [OF fin(1)] order [OF fin(2)] by auto
  then have "re_status ?resp = 200 \<longleftrightarrow> gauge_value (reg_ops r) ''monitor_connected'' [] = Some 1 \<and> reg_roleKnown r \<and>
       ?outs = [] \<and> ?chans = []" "re_status ?resp \<in> {200, 503}"
    using health by (auto simp: readyz_response_def readyzHandler_def Readiness_def health_inv_def Let_def)
  moreover have "count_list (re_body ?resp) LF = 1"
    by (simp add: readyz_response_def readyzHandler_def Let_def readyz_body_line)
  moreover have "re_body ?resp = json_object
      [json_member ''failing_alert_channels'' (json_slice ?chans),
       json_member ''failing_outputs'' (json_slice ?outs),
       json_member ''monitor_connected'' (json_bool (gauge_value (reg_ops r) ''monitor_connected'' [] = Some 1)),
       json_member ''ready'' (json_bool (re_status ?resp = 200)),
       json_member ''role_known'' (json_bool (reg_roleKnown r))] @ [LF]"
  proof -
    have "re_body ?resp = readyz_body (fst (snd (readyzHandler r))) (Readiness r) ?outs ?chans"
      by (simp add: readyz_response_def readyzHandler_def Readiness_def Let_def)
    moreover have "fst (snd (readyzHandler r)) \<longleftrightarrow> re_status ?resp = 200"
      by (simp add: readyz_response_def readyzHandler_def Let_def)
    ultimately show ?thesis using health by (simp add: readyz_body_def Readiness_def health_inv_def)
  qed
  ultimately show ?thesis by blast
qed

theorem readyz_over_http_witness:
  "\<exists>s outs resp. NewServer None ''h:9121'' ''/metrics'' = Some s \<and>
     ServeHTTP (\<lambda>_. \<lparr>re_status = 200, re_type = None, re_body = []\<rparr>) sorted_list_of_set s
       (reg_run [CSetMonitorConnected True, COutputFailing ''file'' True, COutputFailing ''udp'' True]
         (New_Registry [] True ''dev'' ''none'' 0)) ''/readyz'' = Some resp \<and> set outs = {''file'', ''udp''}"
proof -
  let ?calls = "[CSetMonitorConnected True, COutputFailing ''file'' True, COutputFailing ''udp'' True]"
  let ?r = "reg_run ?calls (New_Registry [] True ''dev'' ''none'' 0)"
  obtain s where s: "NewServer None ''h:9121'' ''/metrics'' = Some s" using NewServer_Some by blast
  obtain outs resp where o: "set outs = {out. gauge_value (reg_ops ?r) ''output_failing'' [out] = Some 1}"
    and "ServeHTTP (\<lambda>_. \<lparr>re_status = 200, re_type = None, re_body = []\<rparr>) sorted_list_of_set s ?r ''/readyz'' = Some resp"
    using readyz_over_http [OF s, of sorted_list_of_set "\<lambda>_. \<lparr>re_status = 200, re_type = None, re_body = []\<rparr>"
        ?calls "[]" True "''dev''" "''none''" 0] by auto
  moreover have "{out. gauge_value (reg_ops ?r) ''output_failing'' [out] = Some 1} = {''file'', ''udp''}"
    by (auto simp: reg_methods New_Registry_def split: if_splits)
  ultimately show ?thesis using s by auto
qed

text \<open>
  A configured path can crash the program. A configuration that validation accepts, with metrics
  enabled and a plain path, makes the construction of the server panic exactly when the path is that
  of one of the probes.
\<close>

theorem metrics_path_collision:
  assumes "Validate U c = Inr c'" and "mt_Enabled (cfg_Metrics c)" and "plain_path (mt_Path (cfg_Metrics c'))"
  shows "NewServer client (mt_Address (cfg_Metrics c')) (mt_Path (cfg_Metrics c')) = None \<longleftrightarrow>
    mt_Path (cfg_Metrics c) = ''/healthz'' \<or> mt_Path (cfg_Metrics c) = ''/readyz''"
  using assms by (auto simp: NewServer_None Validate_Inr fill_def fill_metrics_def)

theorem metrics_path_collision_witness:
  "\<exists>c c'. Validate ascii_only c = Inr c' \<and> NewServer None (mt_Address (cfg_Metrics c')) (mt_Path (cfg_Metrics c')) = None"
proof -
  let ?m = "(cfg_Metrics Default)\<lparr>mt_Enabled := True, mt_Path := ''/healthz''\<rparr>"
  let ?c = "Default\<lparr>cfg_Metrics := ?m\<rparr>"
  have v: "Validate ascii_only ?c = Inr (fill ?c)"
    using Default_acceptable by (simp add: Validate_Inr acceptable_def Default_def)
  have "mt_Path (cfg_Metrics (fill ?c)) = ''/healthz''" by (simp add: fill_def fill_metrics_def)
  moreover have "plain_path ''/healthz''" by code_simp
  ultimately have "NewServer None (mt_Address (cfg_Metrics (fill ?c))) (mt_Path (cfg_Metrics (fill ?c))) = None"
    using metrics_path_collision [OF v, of None] by simp
  with v show ?thesis by blast
qed

end
