(* ===== verification/Command.thy ===== *)
theory Command
  imports Lifecycle Server
begin

text \<open>
  The program as it is called, \<^verbatim>\<open>cmd/redis-watcher/main.go\<close>: the two flags with the
  parsing rules of Go's \<^verbatim>\<open>flag\<close> package, the configuration file that is used, and the exit
  status of every way in which the program ends before its components run.
\<close>

section \<open>Flags\<close>

record flags =
  fl_configPath :: string
  fl_showVersion :: bool

datatype flag_error =
    FlagSyntax string
  | FlagUndefined string
  | FlagNeedsArgument string
  | FlagBadBool string
  | FlagHelp

text \<open>The name of a flag and its value, if it has one after an equals sign.\<close>

definition split_flag :: "string \<Rightarrow> string \<times> string option" where
  "split_flag s =
     (case dropWhile (\<lambda>c. c \<noteq> CHR ''='') s of
        [] \<Rightarrow> (s, None)
      | _ # v \<Rightarrow> (takeWhile (\<lambda>c. c \<noteq> CHR ''='') s, Some v))"

text \<open>
  \<^verbatim>\<open>flag.Parse\<close> on the two flags of the program: one or two dashes, the first argument that is
  not a flag ends them, a boolean flag takes a value only after an equals sign.
\<close>

fun flag_Parse :: "string list \<Rightarrow> flags \<Rightarrow> flag_error + flags" where
  "flag_Parse [] f = Inr f"
| "flag_Parse (s # args) f =
     (if length s < 2 \<or> hd s \<noteq> CHR ''-'' \<or> s = ''--'' then Inr f
      else
        let name = (if s ! 1 = CHR ''-'' then drop 2 s else drop 1 s) in
        if name = [] \<or> hd name = CHR ''-'' \<or> hd name = CHR ''='' then Inl (FlagSyntax s)
        else case split_flag name of (n, val) \<Rightarrow>
          if n = ''config'' then
            (case val of
               Some v \<Rightarrow> flag_Parse args (f\<lparr>fl_configPath := v\<rparr>)
             | None \<Rightarrow> (case args of
                 [] \<Rightarrow> Inl (FlagNeedsArgument n)
               | v # rest \<Rightarrow> flag_Parse rest (f\<lparr>fl_configPath := v\<rparr>)))
          else if n = ''version'' then
            (case val of
               None \<Rightarrow> flag_Parse args (f\<lparr>fl_showVersion := True\<rparr>)
             | Some v \<Rightarrow> (case ParseBool v of
                 None \<Rightarrow> Inl (FlagBadBool v)
               | Some b \<Rightarrow> flag_Parse args (f\<lparr>fl_showVersion := b\<rparr>)))
          else if n = ''help'' \<or> n = ''h'' then Inl FlagHelp
          else Inl (FlagUndefined n))"

section \<open>The process\<close>

datatype process = FlagsRefused flag_error | ServerPanic | Process main_outcome

text \<open>
  \<^verbatim>\<open>main\<close>: the flags over the default path, then \<^verbatim>\<open>Run\<close>, whose construction of the
  metrics server can panic.
\<close>

definition main_process ::
  "unicode \<Rightarrow> regexp_engine \<Rightarrow> (ClientOptions \<Rightarrow> string option) \<Rightarrow> loader \<Rightarrow> int \<Rightarrow> BuildInfo \<Rightarrow> environment \<Rightarrow>
     (string \<Rightarrow> bool) \<Rightarrow> string list \<Rightarrow> process" where
  "main_process U rx sdk ld now info env exists args =
     (case flag_Parse args \<lparr>fl_configPath = defaultConfigPath env exists, fl_showVersion = False\<rparr> of
        Inl e \<Rightarrow> FlagsRefused e
      | Inr f \<Rightarrow>
          (case main_start U rx sdk ld now info (fl_configPath f) (fl_showVersion f) of
             Started s \<Rightarrow>
               (case startup U rx sdk ld now (fl_configPath f) info of
                  Inr a \<Rightarrow> (case a_server a of
                      Some (addr, path) \<Rightarrow> if NewServer (a_sentry a) addr path = None then ServerPanic else Process (Started s)
                    | None \<Rightarrow> Process (Started s))
                | Inl e \<Rightarrow> Process (StartFailed e))
           | out \<Rightarrow> Process out))"

text \<open>The exit status, when the process ends before its components run.\<close>

definition process_status :: "process \<Rightarrow> int option" where
  "process_status p = (case p of
      FlagsRefused e \<Rightarrow> Some (if e = FlagHelp then 0 else 2)
    | ServerPanic \<Rightarrow> Some 2
    | Process out \<Rightarrow> main_status out)"

section \<open>Facts\<close>

text \<open>The ways to write the two flags.\<close>

datatype flag_use = ConfigNext string | ConfigEq string | Version | VersionEq string

definition dashes :: "bool \<Rightarrow> string" where
  "dashes two = (if two then ''--'' else ''-'')"

fun written :: "bool \<Rightarrow> flag_use \<Rightarrow> string list" where
  "written two (ConfigNext v) = [dashes two @ ''config'', v]"
| "written two (ConfigEq v) = [dashes two @ ''config='' @ v]"
| "written two Version = [dashes two @ ''version'']"
| "written two (VersionEq v) = [dashes two @ ''version='' @ v]"

fun use_flag :: "flag_use \<Rightarrow> flags \<Rightarrow> flags" where
  "use_flag (ConfigNext v) f = f\<lparr>fl_configPath := v\<rparr>"
| "use_flag (ConfigEq v) f = f\<lparr>fl_configPath := v\<rparr>"
| "use_flag Version f = f\<lparr>fl_showVersion := True\<rparr>"
| "use_flag (VersionEq v) f = f\<lparr>fl_showVersion := the (ParseBool v)\<rparr>"

fun use_ok :: "flag_use \<Rightarrow> bool" where
  "use_ok (VersionEq v) \<longleftrightarrow> ParseBool v \<noteq> None"
| "use_ok u \<longleftrightarrow> True"

lemma split_flag_names [simp]:
  "split_flag ''config'' = (''config'', None)" "split_flag ''version'' = (''version'', None)"
  "split_flag (''config='' @ v) = (''config'', Some v)" "split_flag (''version='' @ v) = (''version'', Some v)"
  by (simp_all add: split_flag_def)

lemma flag_Parse_use:
  "use_ok u \<Longrightarrow> flag_Parse (written two u @ args) f = flag_Parse args (use_flag u f)"
  by (cases u) (auto simp: dashes_def Let_def split_flag_def)

lemma flag_Parse_uses:
  "list_all (use_ok \<circ> snd) us \<Longrightarrow>
     flag_Parse (concat (map (\<lambda>(two, u). written two u) us) @ args) f =
     flag_Parse args (fold use_flag (map snd us) f)"
  by (induction us arbitrary: f) (auto simp: flag_Parse_use)

fun config_values :: "flag_use \<Rightarrow> string list" where
  "config_values (ConfigNext v) = [v]"
| "config_values (ConfigEq v) = [v]"
| "config_values u = []"

fun version_values :: "flag_use \<Rightarrow> bool list" where
  "version_values Version = [True]"
| "version_values (VersionEq v) = [the (ParseBool v)]"
| "version_values u = []"

lemma fold_use_flag:
  "fold use_flag us f = \<lparr>fl_configPath = last (fl_configPath f # concat (map config_values us)),
     fl_showVersion = last (fl_showVersion f # concat (map version_values us))\<rparr>"
proof (induction us arbitrary: f)
  case Nil
  then show ?case by simp
next
  case (Cons u us)
  then show ?case by (cases u) simp_all
qed

text \<open>What ends the flags: nothing, a double dash, or an argument that is not a flag.\<close>

definition ends_flags :: "string list \<Rightarrow> bool" where
  "ends_flags rest \<longleftrightarrow> (case rest of [] \<Rightarrow> True | s # _ \<Rightarrow> length s < 2 \<or> hd s \<noteq> CHR ''-'' \<or> s = ''--'')"

lemma flag_Parse_ends: "ends_flags rest \<Longrightarrow> flag_Parse rest f = Inr f"
  by (cases rest) (auto simp: ends_flags_def)

section \<open>Properties\<close>


text \<open>A configuration file that puts the metrics on the path of the liveness probe.\<close>

definition probe_loader :: loader where
  "probe_loader = twin_loader\<lparr>ld_decode := (\<lambda>_ c. Inr (c\<lparr>cfg_Metrics := (cfg_Metrics c)\<lparr>mt_Path := ''/healthz''\<rparr>\<rparr>))\<rparr>"

definition probe_server :: "(string \<times> string) option" where
  "probe_server = (case sample_startup probe_loader of Inl _ \<Rightarrow> None | Inr a \<Rightarrow> a_server a)"


end
