(* ===== verification/Pipeline.thy ===== *)
theory Pipeline
  imports App
begin

text \<open>
  The running pipeline: the client's channel, the dispatcher of \<^verbatim>\<open>internal/app/app.go\<close>, one consumer
  per output and the alert engine as concurrent goroutines. The dispatcher takes one event and hands
  it to one consumer after the other, so between two of its submissions every other goroutine may
  run; a submission to a full queue without the drop policy is not enabled until there is room. A
  run is any sequence of enabled actions.
\<close>

section \<open>The concurrent system\<close>

text \<open>A consumer's goroutine, with the record of its actions and effects.\<close>

record lane =
  ln_phase :: phase
  ln_c :: Consumer
  ln_acts :: "c_action list"
  ln_es :: "effect list"

definition lane_start :: "Consumer \<Rightarrow> lane" where
  "lane_start c = \<lparr>ln_phase = Running, ln_c = c, ln_acts = [], ln_es = []\<rparr>"

definition lane_step :: "unicode \<Rightarrow> c_action \<Rightarrow> lane \<Rightarrow> lane option" where
  "lane_step U a l =
     map_option (\<lambda>(ph, c, es). \<lparr>ln_phase = ph, ln_c = c, ln_acts = ln_acts l @ [a], ln_es = ln_es l @ es\<rparr>)
       (consumer_step U a (ln_phase l) (ln_c l))"

text \<open>Where the dispatcher is: at its select, or about to submit an event to consumer number \<open>i\<close>.\<close>

datatype disp_pc = Waiting | Submitting Event nat | Stopped

text \<open>
  \<open>pp_sent\<close> is what the client has put on the channel or dropped there, \<open>pp_finished\<close> the events the
  dispatcher is through with.
\<close>

record pipe =
  pp_mon :: Client
  pp_disp :: disp_pc
  pp_lanes :: "lane list"
  pp_alerts :: "(bool \<times> Engine) option"
  pp_ignored :: "string set"
  pp_cancelled :: bool
  pp_sent :: "Event list"
  pp_finished :: "Event list"

definition pipe_start :: "app \<Rightarrow> pipe" where
  "pipe_start a =
     \<lparr>pp_mon = pl_mon (a_pipeline a), pp_disp = Waiting,
      pp_lanes = (case pl_outputs (a_pipeline a) of None \<Rightarrow> [] | Some m \<Rightarrow> map lane_start m),
      pp_alerts = map_option (Pair True) (pl_alerts (a_pipeline a)), pp_ignored = a_ignored a,
      pp_cancelled = False, pp_sent = [], pp_finished = []\<rparr>"

datatype p_action =
    PSend Event
  | PReceive
  | PSubmit
  | PConsumer nat c_action
  | PEngine e_action
  | PCancel
  | PStop

text \<open>The dispatcher receives: an ignored event is finished at once, another is to be submitted.\<close>

definition disp_receive :: "pipe \<Rightarrow> pipe option" where
  "disp_receive s =
     (if pp_disp s \<noteq> Waiting then None
      else case ch_recv (mc_out (pp_mon s)) of
        None \<Rightarrow> None
      | Some (ev, q) \<Rightarrow>
          let s1 = s\<lparr>pp_mon := (pp_mon s)\<lparr>mc_out := q\<rparr>\<rparr>
          in Some (if ev_Command ev \<in> pp_ignored s then s1\<lparr>pp_finished := pp_finished s @ [ev]\<rparr>
                   else s1\<lparr>pp_disp := Submitting ev 0\<rparr>))"

text \<open>It submits to the next consumer or, after the last, to the alert engine if there is one.\<close>

definition disp_submit :: "unicode \<Rightarrow> pipe \<Rightarrow> pipe option" where
  "disp_submit U s =
     (case pp_disp s of
        Submitting ev i \<Rightarrow>
          if i < length (pp_lanes s) then
            map_option (\<lambda>l. s\<lparr>pp_lanes := (pp_lanes s)[i := l], pp_disp := Submitting ev (Suc i)\<rparr>)
              (lane_step U (ASubmit ev) (pp_lanes s ! i))
          else
            let s1 = s\<lparr>pp_disp := Waiting, pp_finished := pp_finished s @ [ev]\<rparr>
            in (case pp_alerts s of
                  None \<Rightarrow> Some s1
                | Some (running, e) \<Rightarrow>
                    map_option (\<lambda>(e', es). s1\<lparr>pp_alerts := Some (running, e')\<rparr>) (Engine_Submit e ev))
      | _ \<Rightarrow> None)"

fun is_submit :: "c_action \<Rightarrow> bool" where
  "is_submit (ASubmit ev) = True"
| "is_submit a = False"

fun pipe_next :: "unicode \<Rightarrow> regexp_engine \<Rightarrow> p_action \<Rightarrow> pipe \<Rightarrow> pipe option" where
  "pipe_next U rx (PSend ev) s =
     map_option (\<lambda>(m, es). s\<lparr>pp_mon := m, pp_sent := pp_sent s @ [ev]\<rparr>) (send_event (pp_mon s) ev)"
| "pipe_next U rx PReceive s = disp_receive s"
| "pipe_next U rx PSubmit s = disp_submit U s"
| "pipe_next U rx (PConsumer i a) s =
     (if i < length (pp_lanes s) \<and> \<not> is_submit a \<and> (a = ACancel \<longrightarrow> pp_cancelled s)
      then map_option (\<lambda>l. s\<lparr>pp_lanes := (pp_lanes s)[i := l]\<rparr>) (lane_step U a (pp_lanes s ! i))
      else None)"
| "pipe_next U rx (PEngine a) s =
     (case pp_alerts s of
        None \<Rightarrow> None
      | Some (running, e) \<Rightarrow>
          if (case a of ECancel \<Rightarrow> \<not> pp_cancelled s | EHandle now env \<Rightarrow> False) then None
          else map_option (\<lambda>(r, e', es). s\<lparr>pp_alerts := Some (r, e')\<rparr>) (engine_step rx a running e))"
| "pipe_next U rx PCancel s = Some (s\<lparr>pp_cancelled := True\<rparr>)"
| "pipe_next U rx PStop s =
     (if pp_cancelled s \<and> pp_disp s = Waiting then Some (s\<lparr>pp_disp := Stopped\<rparr>) else None)"

fun pipe_run :: "unicode \<Rightarrow> regexp_engine \<Rightarrow> p_action list \<Rightarrow> pipe \<Rightarrow> pipe option" where
  "pipe_run U rx [] s = Some s"
| "pipe_run U rx (a # as) s = (case pipe_next U rx a s of None \<Rightarrow> None | Some s1 \<Rightarrow> pipe_run U rx as s1)"

text \<open>\<^verbatim>\<open>Manager.Run\<close> waits for all its consumers.\<close>

definition Manager_Run_done :: "pipe \<Rightarrow> bool" where
  "Manager_Run_done s \<longleftrightarrow> list_all (\<lambda>l. ln_phase l = Closed) (pp_lanes s)"

section \<open>The invariant\<close>

text \<open>What the dispatcher has of the event in hand, for consumer \<open>i\<close>: already submitted, or still to submit.\<close>

definition given :: "pipe \<Rightarrow> nat \<Rightarrow> Event list" where
  "given s i = (case pp_disp s of Submitting ev j \<Rightarrow> if i < j then [ev] else [] | _ \<Rightarrow> [])"

definition in_hand :: "pipe \<Rightarrow> nat \<Rightarrow> Event list" where
  "in_hand s i = (case pp_disp s of Submitting ev j \<Rightarrow> if i < j then [] else [ev] | _ \<Rightarrow> [])"

definition chan_inv :: "pipe \<Rightarrow> bool" where
  "chan_inv s \<longleftrightarrow>
     (let seen = pp_finished s @ (case pp_disp s of Submitting ev j \<Rightarrow> [ev] | _ \<Rightarrow> []) @ out_buf (pp_mon s) in
      subseq seen (pp_sent s) \<and> (\<not> mc_drop (pp_mon s) \<longrightarrow> seen = pp_sent s) \<and>
      mc_dropped (pp_mon s) + of_nat (length seen) = of_nat (length (pp_sent s)))"

definition lanes_inv :: "pipe \<Rightarrow> bool" where
  "lanes_inv s \<longleftrightarrow>
     (\<forall>i < length (pp_lanes s). let l = pp_lanes s ! i in
        conserved (ln_c l) (ln_acts l) (ln_es l) \<and>
        submitted (ln_acts l) = kept_events (pp_ignored s) (pp_finished s) @ given s i)"

definition disp_inv :: "pipe \<Rightarrow> bool" where
  "disp_inv s \<longleftrightarrow> (case pp_disp s of Submitting ev j \<Rightarrow> j \<le> length (pp_lanes s) \<and> ev_Command ev \<notin> pp_ignored s | _ \<Rightarrow> True)"

definition pipe_inv :: "pipe \<Rightarrow> bool" where
  "pipe_inv s \<longleftrightarrow> chan_inv s \<and> lanes_inv s \<and> disp_inv s"

lemmas pipe_inv_defs = pipe_inv_def chan_inv_def lanes_inv_def disp_inv_def given_def

lemma kept_append [simp]: "kept_events ign (a @ b) = kept_events ign a @ kept_events ign b"
  by (simp add: kept_events_def)

lemma kept_single [simp]: "kept_events ign [ev] = (if ev_Command ev \<in> ign then [] else [ev])"
  by (simp add: kept_events_def)

lemma lane_step_conserved:
  assumes "lane_step U a l = Some l'" "conserved (ln_c l) (ln_acts l) (ln_es l)"
  shows "conserved (ln_c l') (ln_acts l') (ln_es l') \<and> ln_acts l' = ln_acts l @ [a]"
  using assms conserved_step by (auto simp: lane_step_def)

lemma submitted_snoc: "submitted (as @ [a]) = submitted as @ (case a of ASubmit ev \<Rightarrow> [ev] | _ \<Rightarrow> [])"
  by (cases a) simp_all

lemma chan_inv_send:
  assumes "chan_inv s" "send_event (pp_mon s) ev = Some (m, es)"
  shows "chan_inv (s\<lparr>pp_mon := m, pp_sent := pp_sent s @ [ev]\<rparr>)"
proof -
  let ?seen = "pp_finished s @ (case pp_disp s of Submitting ev j \<Rightarrow> [ev] | _ \<Rightarrow> []) @ out_buf (pp_mon s)"
  have inv: "subseq ?seen (pp_sent s)" "\<not> mc_drop (pp_mon s) \<longrightarrow> ?seen = pp_sent s"
    "mc_dropped (pp_mon s) + of_nat (length ?seen) = of_nat (length (pp_sent s))"
    using assms(1) unfolding chan_inv_def Let_def by blast+
  from assms(2) consider "m = (pp_mon s)\<lparr>mc_out := (mc_out (pp_mon s))\<lparr>ch_buf := out_buf (pp_mon s) @ [ev]\<rparr>\<rparr>"
    | "mc_drop (pp_mon s)" "m = (pp_mon s)\<lparr>mc_dropped := mc_dropped (pp_mon s) + 1\<rparr>"
    by (auto simp: send_event_def go_chan split: option.splits if_splits)
  then show ?thesis
  proof cases
    case 1
    have "subseq (?seen @ [ev]) (pp_sent s @ [ev])" using inv(1) by (rule list_emb_append_mono) simp
    then show ?thesis using inv(2,3) 1 by (simp add: chan_inv_def Let_def algebra_simps)
  next
    case 2
    have "subseq ?seen (pp_sent s @ [ev])" using inv(1) by (rule subseq_order.order_trans) (simp add: prefix_imp_subseq)
    moreover have "mc_dropped (pp_mon s) + 1 + of_nat (length ?seen) = of_nat (length (pp_sent s @ [ev]))"
      using inv(3) by (simp add: algebra_simps)
    ultimately show ?thesis using 2 unfolding chan_inv_def Let_def by simp
  qed
qed

lemma pipe_inv_receive:
  assumes "pipe_inv s" "disp_receive s = Some s'"
  shows "pipe_inv s'"
proof -
  obtain ev q where w: "pp_disp s = Waiting" "out_buf (pp_mon s) = ev # q" and
    s': "s' = (let s1 = s\<lparr>pp_mon := (pp_mon s)\<lparr>mc_out := (mc_out (pp_mon s))\<lparr>ch_buf := q\<rparr>\<rparr>\<rparr>
          in if ev_Command ev \<in> pp_ignored s then s1\<lparr>pp_finished := pp_finished s @ [ev]\<rparr>
             else s1\<lparr>pp_disp := Submitting ev 0\<rparr>)"
    using assms(2) by (auto simp: disp_receive_def go_chan Let_def split: option.splits if_splits)
  show ?thesis using assms(1) w unfolding s' Let_def by (auto simp: pipe_inv_defs Let_def ac_simps)
qed

lemma lanes_inv_update:
  assumes "lanes_inv s" "i < length (pp_lanes s)" "lane_step U a (pp_lanes s ! i) = Some l"
    and "s' = s\<lparr>pp_lanes := (pp_lanes s)[i := l], pp_disp := d\<rparr>"
    and "submitted (ln_acts (pp_lanes s ! i)) @ submitted [a] = kept_events (pp_ignored s) (pp_finished s) @ given s' i"
    and "\<And>k. k \<noteq> i \<Longrightarrow> given s' k = given s k"
  shows "lanes_inv s'"
  unfolding lanes_inv_def Let_def
proof (intro allI impI)
  fix k
  assume k: "k < length (pp_lanes s')"
  show "conserved (ln_c (pp_lanes s' ! k)) (ln_acts (pp_lanes s' ! k)) (ln_es (pp_lanes s' ! k)) \<and>
    submitted (ln_acts (pp_lanes s' ! k)) = kept_events (pp_ignored s') (pp_finished s') @ given s' k"
  proof (cases "k = i")
    case True
    with lane_step_conserved [OF assms(3)] assms(1,2,4,5) show ?thesis by (auto simp: lanes_inv_def Let_def)
  next
    case False
    with assms(1,4,6) k show ?thesis by (auto simp: lanes_inv_def Let_def)
  qed
qed

lemma pipe_inv_submit:
  assumes "pipe_inv s" "disp_submit U s = Some s'"
  shows "pipe_inv s'"
proof -
  obtain ev i where d: "pp_disp s = Submitting ev i"
    using assms(2) by (auto simp: disp_submit_def split: disp_pc.splits)
  have le: "i \<le> length (pp_lanes s)" "ev_Command ev \<notin> pp_ignored s" using assms(1) d by (auto simp: pipe_inv_def disp_inv_def)
  show ?thesis
  proof (cases "i < length (pp_lanes s)")
    case True
    then obtain l where l: "lane_step U (ASubmit ev) (pp_lanes s ! i) = Some l"
      "s' = s\<lparr>pp_lanes := (pp_lanes s)[i := l], pp_disp := Submitting ev (Suc i)\<rparr>"
      using assms(2) d by (auto simp: disp_submit_def)
    have "lanes_inv s'"
      by (rule lanes_inv_update [OF _ True l]) (use assms(1) d True l(2) in \<open>auto simp: pipe_inv_def lanes_inv_def given_def Let_def\<close>)
    with assms(1) d True l(2) le(2) show ?thesis by (simp add: pipe_inv_def chan_inv_def disp_inv_def Let_def)
  next
    case False
    then obtain al where s': "s' = s\<lparr>pp_disp := Waiting, pp_finished := pp_finished s @ [ev], pp_alerts := al\<rparr>"
      using assms(2) d by (cases s) (auto simp: disp_submit_def Let_def split: option.splits)
    have "given s k = [ev]" if "k < length (pp_lanes s)" for k using that d False by (simp add: given_def)
    with assms(1) d le show ?thesis unfolding s' by (auto simp: pipe_inv_defs Let_def)
  qed
qed

lemma pipe_inv_consumer:
  assumes "pipe_inv s" "pipe_next U rx (PConsumer i a) s = Some s'"
  shows "pipe_inv s'"
proof -
  obtain l where i: "i < length (pp_lanes s)" "\<not> is_submit a" and l: "lane_step U a (pp_lanes s ! i) = Some l"
    and s': "s' = s\<lparr>pp_lanes := (pp_lanes s)[i := l], pp_disp := pp_disp s\<rparr>"
    using assms(2) by (cases s) (auto split: if_splits)
  have "submitted [a] = []" using i(2) by (cases a) auto
  then have "lanes_inv s'"
    by (intro lanes_inv_update [OF _ i(1) l s']) (use assms(1) i(1) s' in \<open>auto simp: pipe_inv_def lanes_inv_def given_def Let_def\<close>)
  with assms(1) s' show ?thesis by (cases "pp_disp s") (simp_all add: pipe_inv_def chan_inv_def disp_inv_def Let_def)
qed

lemma pipe_inv_frame [simp]:
  "pipe_inv (s\<lparr>pp_alerts := x\<rparr>) = pipe_inv s" "pipe_inv (s\<lparr>pp_cancelled := y\<rparr>) = pipe_inv s"
  by (simp_all add: pipe_inv_defs cong: disp_pc.case_cong)

lemma pipe_inv_step:
  assumes "pipe_inv s" "pipe_next U rx a s = Some s'"
  shows "pipe_inv s'"
proof (cases a)
  case (PSend ev)
  with assms chan_inv_send [of s ev] show ?thesis
    by (cases "pp_disp s") (auto simp: pipe_inv_def lanes_inv_def disp_inv_def given_def)
next
  case PReceive
  with assms pipe_inv_receive show ?thesis by simp
next
  case PSubmit
  with assms pipe_inv_submit show ?thesis by simp
next
  case (PConsumer i act)
  with assms pipe_inv_consumer show ?thesis by blast
next
  case (PEngine act)
  with assms show ?thesis by (auto split: option.splits if_splits)
next
  case PCancel
  with assms show ?thesis by auto
next
  case PStop
  with assms show ?thesis by (auto simp: pipe_inv_defs Let_def split: if_splits)
qed

lemma pipe_run_append:
  "pipe_run U rx (a @ b) s = (case pipe_run U rx a s of None \<Rightarrow> None | Some s1 \<Rightarrow> pipe_run U rx b s1)"
  by (induction a arbitrary: s) (simp_all split: option.split)

lemma pipe_run_preserves:
  assumes "pipe_run U rx as s = Some s'" "P s" "\<And>a s s'. P s \<Longrightarrow> pipe_next U rx a s = Some s' \<Longrightarrow> P s'"
  shows "P s'"
  using assms(1,2) by (induction as arbitrary: s) (auto split: option.splits intro: assms(3))

text \<open>The configuration of the pipeline does not change.\<close>

definition same_pipe :: "pipe \<Rightarrow> pipe \<Rightarrow> bool" where
  "same_pipe s s' \<longleftrightarrow> pp_ignored s' = pp_ignored s \<and> mc_drop (pp_mon s') = mc_drop (pp_mon s) \<and>
     map (\<lambda>l. c_drop (ln_c l)) (pp_lanes s') = map (\<lambda>l. c_drop (ln_c l)) (pp_lanes s) \<and>
     map_option (\<lambda>(r, e). en_drop e) (pp_alerts s') = map_option (\<lambda>(r, e). en_drop e) (pp_alerts s)"

lemma handle_drop: "handle rx now env ev e = (e', es) \<Longrightarrow> en_drop e' = en_drop e"
  by (auto simp: handle_def rateLimitAllow_def Let_def split: option.splits if_splits)

lemma engine_step_drop: "engine_step rx act r e = Some (r', e', es) \<Longrightarrow> en_drop e' = en_drop e"
  by (cases act) (auto dest: handle_drop split: if_splits option.splits)

lemma Engine_Submit_drop: "Engine_Submit e ev = Some (e', es) \<Longrightarrow> en_drop e' = en_drop e"
  by (auto simp: Engine_Submit_def split: if_splits option.splits)

lemma close_sink_frame: "close_sink env c = (c', es) \<Longrightarrow> c_drop c' = c_drop c \<and> c_in c' = c_in c"
  by (auto simp: close_sink_def split: prod.splits)

lemma lane_step_drop:
  assumes "lane_step U a l = Some l'"
  shows "c_drop (ln_c l') = c_drop (ln_c l)"
proof -
  obtain ph c es where "consumer_step U a (ln_phase l) (ln_c l) = Some (ph, c, es)" "l' = \<lparr>ln_phase = ph, ln_c = c, ln_acts = ln_acts l @ [a], ln_es = ln_es l @ es\<rparr>"
    using assms by (auto simp: lane_step_def)
  then show ?thesis
    by (cases rule: consumer_step_cases)
       (auto elim!: Submit_cases dest: write_event_cases close_sink_frame)
qed

lemma same_pipe_step:
  assumes "pipe_next U rx a s = Some s'"
  shows "same_pipe s s'"
proof -
  have upd: "map (\<lambda>l. c_drop (ln_c l)) ((pp_lanes s)[i := l]) = map (\<lambda>l. c_drop (ln_c l)) (pp_lanes s)"
    if "lane_step U act (pp_lanes s ! i) = Some l" "i < length (pp_lanes s)" for act i l
    using lane_step_drop [OF that(1)] that(2) by (simp add: map_update list_update_same_conv)
  show ?thesis
  proof (cases a)
    case PSubmit
    then show ?thesis using assms upd
      by (auto simp: same_pipe_def disp_submit_def Let_def dest: Engine_Submit_drop split: disp_pc.splits if_splits option.splits)
  next
    case (PConsumer i act)
    then show ?thesis using assms upd by (auto simp: same_pipe_def split: if_splits)
  next
    case (PEngine act)
    then obtain r e r' e' es where "pp_alerts s = Some (r, e)" "s' = s\<lparr>pp_alerts := Some (r', e')\<rparr>"
      "engine_step rx act r e = Some (r', e', es)" using assms by (auto split: option.splits if_splits)
    with engine_step_drop [of rx act r e r' e' es] show ?thesis by (simp add: same_pipe_def)
  qed (use assms in \<open>auto simp: same_pipe_def disp_receive_def send_event_def Let_def
      split: option.splits if_splits\<close>)
qed

lemma pipe_start_inv:
  assumes "startup U rx sdk ld now path info = Inr a" "Load U ld path = Inr cfg"
  shows "pipe_inv (pipe_start a)" "pp_ignored (pipe_start a) = IgnoredSet U (cfg_Filter cfg)"
    "mc_drop (pp_mon (pipe_start a)) = pc_DropOnFull (cfg_Pipeline cfg)"
    "\<forall>l\<in>set (pp_lanes (pipe_start a)). c_drop (ln_c l) = pc_DropOnFull (cfg_Pipeline cfg)"
    "\<forall>r e. pp_alerts (pipe_start a) = Some (r, e) \<longrightarrow> en_drop e = pc_DropOnFull (cfg_Pipeline cfg)"
proof -
  obtain lg sentry cs al where a: "list_all2 (consumer_for (cfg_Pipeline cfg)) (filter oc_Enabled (cfg_Outputs cfg)) cs"
    "a = app_for U now info cfg lg sentry cs al" and al: "buildAlertEngine U rx cfg = Inr al"
    using startup_Inr [OF assms] by blast
  have lanes: "pp_lanes (pipe_start a) = map (\<lambda>c. lane_start (SetMetricsSink True c)) cs"
    by (simp add: pipe_start_def a(2) app_for_def outputs_for_def)
  have fresh: "\<exists>oc. consumer_for (cfg_Pipeline cfg) oc c" if "c \<in> set cs" for c
    using a(1) that by (metis in_set_conv_nth list_all2_conv_all_nth)
  have "conserved (SetMetricsSink True c) [] []" if "c \<in> set cs" for c
    using fresh [OF that] by (auto simp: consumer_for_def conserved_def SetMetricsSink_def QueueDepth_def make_chan_def)
  moreover have "pp_disp (pipe_start a) = Waiting" "pp_finished (pipe_start a) = []" "pp_sent (pipe_start a) = []"
    "pp_mon (pipe_start a) = monitor_for cfg"
    by (simp_all add: pipe_start_def a(2) app_for_def)
  ultimately show "pipe_inv (pipe_start a)"
    by (simp add: pipe_inv_defs Let_def lanes lane_start_def kept_events_def monitor_for_def make_chan_def)
  show "pp_ignored (pipe_start a) = IgnoredSet U (cfg_Filter cfg)"
    "mc_drop (pp_mon (pipe_start a)) = pc_DropOnFull (cfg_Pipeline cfg)"
    by (simp_all add: pipe_start_def a(2) app_for_def monitor_for_def)
  show "\<forall>l\<in>set (pp_lanes (pipe_start a)). c_drop (ln_c l) = pc_DropOnFull (cfg_Pipeline cfg)"
    using fresh by (auto simp: lanes lane_start_def SetMetricsSink_def consumer_for_def)
  have "en_drop e = pc_DropOnFull (cfg_Pipeline cfg)" if "al = Some e" for e
  proof -
    have "New_Engine U rx (alert_options U cfg) = Inr e"
      using al that by (auto simp: buildAlertEngine_def split: if_splits sum.splits)
    from New_Engine_Inr(2) [OF this] show ?thesis by (simp add: alert_options_def Let_def)
  qed
  then show "\<forall>r e. pp_alerts (pipe_start a) = Some (r, e) \<longrightarrow> en_drop e = pc_DropOnFull (cfg_Pipeline cfg)"
    by (auto simp: pipe_start_def a(2) app_for_def)
qed

lemma pipe_run_facts:
  assumes "startup U rx sdk ld now path info = Inr a" "Load U ld path = Inr cfg"
    and "pipe_run U rx acts (pipe_start a) = Some s"
  shows "pipe_inv s" "pp_ignored s = IgnoredSet U (cfg_Filter cfg)" "mc_drop (pp_mon s) = pc_DropOnFull (cfg_Pipeline cfg)"
    "\<And>i. i < length (pp_lanes s) \<Longrightarrow> c_drop (ln_c (pp_lanes s ! i)) = pc_DropOnFull (cfg_Pipeline cfg)"
    "\<And>r e. pp_alerts s = Some (r, e) \<Longrightarrow> en_drop e = pc_DropOnFull (cfg_Pipeline cfg)"
proof -
  note start = pipe_start_inv [OF assms(1,2)]
  show "pipe_inv s" using assms(3) start(1) pipe_inv_step by (rule pipe_run_preserves)
  have same: "same_pipe (pipe_start a) s"
    by (rule pipe_run_preserves [OF assms(3)]) (use same_pipe_step in \<open>auto simp: same_pipe_def\<close>)
  then show "pp_ignored s = IgnoredSet U (cfg_Filter cfg)" "mc_drop (pp_mon s) = pc_DropOnFull (cfg_Pipeline cfg)"
    using start(2,3) by (simp_all add: same_pipe_def)
  show "c_drop (ln_c (pp_lanes s ! i)) = pc_DropOnFull (cfg_Pipeline cfg)" if "i < length (pp_lanes s)" for i
  proof -
    have "c_drop (ln_c (pp_lanes s ! i)) \<in> set (map (\<lambda>l. c_drop (ln_c l)) (pp_lanes s))" using that by simp
    then show ?thesis using same start(4) unfolding same_pipe_def by auto
  qed
  show "en_drop e = pc_DropOnFull (cfg_Pipeline cfg)" if "pp_alerts s = Some (r, e)" for r e
    using same start(5) that unfolding same_pipe_def by (cases "pp_alerts (pipe_start a)") auto
qed

text \<open>The event in the dispatcher's hand, and the order of the stream around it.\<close>

definition current :: "pipe \<Rightarrow> Event list" where
  "current s = (case pp_disp s of Submitting ev j \<Rightarrow> [ev] | _ \<Rightarrow> [])"

lemma stream_kept:
  assumes "pipe_inv s"
  shows "subseq (kept_events ign (pp_finished s @ current s)) (kept_events ign (pp_sent s))"
    and "\<not> mc_drop (pp_mon s) \<Longrightarrow>
      kept_events ign (pp_sent s) = kept_events ign (pp_finished s @ current s) @ kept_events ign (out_buf (pp_mon s))"
proof -
  have chan: "subseq ((pp_finished s @ current s) @ out_buf (pp_mon s)) (pp_sent s)"
    "\<not> mc_drop (pp_mon s) \<longrightarrow> (pp_finished s @ current s) @ out_buf (pp_mon s) = pp_sent s"
    using assms unfolding pipe_inv_def chan_inv_def current_def Let_def append.assoc by blast+
  have "subseq (pp_finished s @ current s) (pp_sent s)" using chan(1) by (rule subseq_order.order_trans [rotated]) (simp add: prefix_imp_subseq)
  then show "subseq (kept_events ign (pp_finished s @ current s)) (kept_events ign (pp_sent s))"
    unfolding kept_events_def by (rule subseq_filter)
  show "kept_events ign (pp_sent s) = kept_events ign (pp_finished s @ current s) @ kept_events ign (out_buf (pp_mon s))"
    if "\<not> mc_drop (pp_mon s)" using chan(2) that by (metis kept_append)
qed

section \<open>Properties\<close>


text \<open>Runs for the examples: an application with two standard outputs, and one with a queue of one event that blocks.\<close>

definition blocking_loader :: loader where
  "blocking_loader =
     \<lparr>ld_read = (\<lambda>_. Inr []),
      ld_decode = (\<lambda>_ c. Inr (c\<lparr>cfg_Outputs := [stdout_output],
        cfg_Pipeline := \<lparr>pc_EventBuffer = 10, pc_ConsumerBuffer = 1, pc_DropOnFull = False\<rparr>\<rparr>)),
      ld_env = (\<lambda>_. None), ld_fscale = (\<lambda>_ _ _. 0)\<rparr>"

definition sample_pipe :: "loader \<Rightarrow> p_action list \<Rightarrow> pipe option" where
  "sample_pipe ld acts =
     (case sample_startup ld of Inl _ \<Rightarrow> None | Inr a \<Rightarrow> pipe_run ascii_only bad_regexp acts (pipe_start a))"

definition two_events :: "p_action list" where
  "two_events = [PSend (sample_event ''SET'' []), PSend (sample_event ''GET'' []), PReceive, PSubmit, PConsumer 0 (AWrite env_ok)]"

lemma sample_pipe_Some:
  assumes "sample_pipe ld acts = Some s"
  obtains a cfg where "sample_startup ld = Inr a" "pipe_run ascii_only bad_regexp acts (pipe_start a) = Some s"
    "Load ascii_only ld ''config.yaml'' = Inr cfg" "pc_DropOnFull (cfg_Pipeline cfg) = mc_drop (pp_mon s)"
    "IgnoredSet ascii_only (cfg_Filter cfg) = pp_ignored s"
proof -
  obtain a where a: "sample_startup ld = Inr a" "pipe_run ascii_only bad_regexp acts (pipe_start a) = Some s"
    using assms by (auto simp: sample_pipe_def split: sum.splits)
  obtain cfg where cfg: "Load ascii_only ld ''config.yaml'' = Inr cfg"
    using a(1) by (cases "Load ascii_only ld ''config.yaml''") (simp_all add: sample_startup_def startup_def and_then_def)
  from that [OF a cfg] pipe_run_facts(2,3) [OF a(1) [unfolded sample_startup_def] cfg a(2)] show ?thesis by simp
qed


section \<open>Shutdown\<close>

lemma closed_lane_stuck:
  assumes "ln_phase l = Closed" "\<not> c_drop (ln_c l)" "\<not> ch_room (c_in (ln_c l))"
  shows "lane_step U a l = None"
  using assms by (cases a) (auto simp: lane_step_def Submit_def go_chan split: option.split)

text \<open>
  C20: A blocked dispatcher is never released at shutdown. Without the drop policy, once a consumer
  has closed its sink with its queue full (its drain stops at the first failed write or after two
  seconds), a dispatcher that is about to submit to it waits for ever: nothing that any goroutine
  does afterwards moves it, so it never returns, and neither does the process until it is killed.
\<close>

theorem shutdown_stuck:
  assumes "pp_disp s = Submitting ev i" "i < length (pp_lanes s)"
    and "ln_phase (pp_lanes s ! i) = Closed" "\<not> c_drop (ln_c (pp_lanes s ! i))"
    and "\<not> ch_room (c_in (ln_c (pp_lanes s ! i)))"
    and "pipe_run U rx acts s = Some s'"
  shows "pp_disp s' = Submitting ev i \<and> pp_disp s' \<noteq> Stopped"
proof -
  let ?l = "pp_lanes s ! i"
  define P where "P t \<longleftrightarrow> pp_disp t = Submitting ev i \<and> i < length (pp_lanes t) \<and> pp_lanes t ! i = ?l" for t :: pipe
  note stuck = closed_lane_stuck [OF assms(3-5)]
  have "P s'"
  proof (rule pipe_run_preserves [OF assms(6), of P])
    show "P s" using assms(1,2) by (simp add: P_def)
    fix a t t'
    assume t: "P t" "pipe_next U rx a t = Some t'"
    show "P t'"
    proof (cases a)
      case (PConsumer k act)
      with t stuck show ?thesis by (cases "k = i") (auto simp: P_def split: if_splits)
    next
      case PSubmit
      with t stuck show ?thesis by (simp add: P_def disp_submit_def)
    qed (use t in \<open>auto simp: P_def disp_receive_def split: option.splits if_splits\<close>)
  qed
  then show ?thesis by (simp add: P_def)
qed

text \<open>Such a state is reached: the sink fails during the drain while the dispatcher still has events.\<close>

definition shutdown_run :: "p_action list" where
  "shutdown_run =
     [PSend (sample_event ''SET'' []), PSend (sample_event ''GET'' []), PSend (sample_event ''DEL'' []),
      PReceive, PSubmit, PSubmit, PReceive, PCancel, PConsumer 0 ACancel, PConsumer 0 (ADrain env_broken),
      PSubmit, PSubmit, PReceive, PConsumer 0 (AClose env_ok)]"

theorem shutdown_stuck_witness:
  "\<exists>s. sample_pipe blocking_loader shutdown_run = Some s \<and> pp_cancelled s \<and>
     (\<forall>acts s'. pipe_run ascii_only bad_regexp acts s = Some s' \<longrightarrow> pp_disp s' \<noteq> Stopped)"
proof -
  have "case sample_pipe blocking_loader shutdown_run of None \<Rightarrow> False
      | Some s \<Rightarrow> pp_cancelled s \<and> 0 < length (pp_lanes s) \<and>
          (case pp_disp s of Submitting ev i \<Rightarrow> i = 0 | _ \<Rightarrow> False) \<and> ln_phase (pp_lanes s ! 0) = Closed \<and>
          \<not> c_drop (ln_c (pp_lanes s ! 0)) \<and> \<not> ch_room (c_in (ln_c (pp_lanes s ! 0)))" by code_simp
  then obtain s ev where s: "sample_pipe blocking_loader shutdown_run = Some s" "pp_cancelled s" "0 < length (pp_lanes s)"
    "pp_disp s = Submitting ev 0" "ln_phase (pp_lanes s ! 0) = Closed" "\<not> c_drop (ln_c (pp_lanes s ! 0))"
    "\<not> ch_room (c_in (ln_c (pp_lanes s ! 0)))"
    by (auto split: option.splits disp_pc.splits)
  from shutdown_stuck [OF s(4,3,5-7)] s(1,2) show ?thesis by blast
qed

lemma last_submit:
  assumes "pp_disp t = Submitting ev i" "length (pp_lanes t) \<le> i" "\<forall>r e. pp_alerts t = Some (r, e) \<longrightarrow> en_drop e"
  shows "\<exists>t'. disp_submit U t = Some t' \<and> pp_disp t' = Waiting"
proof (cases "pp_alerts t")
  case None
  with assms show ?thesis by (simp add: disp_submit_def Let_def)
next
  case (Some re)
  then obtain r e where re: "pp_alerts t = Some (r, e)" by (cases re) auto
  then obtain e' es where "Engine_Submit e ev = Some (e', es)"
    using engine_queue.submit_never_blocks [of e ev] assms(3) by auto
  with re assms show ?thesis by (simp add: disp_submit_def Let_def)
qed

lemma dispatcher_drive:
  assumes "pp_disp t = Submitting ev i" "n = length (pp_lanes t) - i" "\<forall>l\<in>set (pp_lanes t). c_drop (ln_c l)"
    and "\<forall>r e. pp_alerts t = Some (r, e) \<longrightarrow> en_drop e"
  shows "\<exists>k t'. k \<le> Suc n \<and> pipe_run U rx (replicate k PSubmit) t = Some t' \<and> pp_disp t' = Waiting"
  using assms
proof (induction n arbitrary: t i)
  case 0
  then obtain t' where "disp_submit U t = Some t'" "pp_disp t' = Waiting" using last_submit [of t ev i U] by auto
  then show ?case by (intro exI [of _ 1]) auto
next
  case (Suc n)
  then have i: "i < length (pp_lanes t)" by simp
  then have "c_drop (ln_c (pp_lanes t ! i))" using Suc.prems(3) by simp
  then obtain l where l: "lane_step U (ASubmit ev) (pp_lanes t ! i) = Some l"
    using consumer_queue.submit_never_blocks [of "ln_c (pp_lanes t ! i)" ev] by (auto simp: lane_step_def)
  let ?t = "t\<lparr>pp_lanes := (pp_lanes t)[i := l], pp_disp := Submitting ev (Suc i)\<rparr>"
  have step: "disp_submit U t = Some ?t" using Suc.prems(1) i l by (simp add: disp_submit_def)
  have drp: "\<forall>l\<in>set (pp_lanes ?t). c_drop (ln_c l)"
    using lane_step_drop [OF l] i Suc.prems(3) by (auto dest!: subsetD [OF set_update_subset_insert])
  have "n = length (pp_lanes ?t) - Suc i" using Suc.prems(2) by simp
  then obtain k t' where "k \<le> Suc n" "pipe_run U rx (replicate k PSubmit) ?t = Some t'" "pp_disp t' = Waiting"
    using Suc.IH [of ?t "Suc i", OF _ _ drp] Suc.prems(4) by auto
  then show ?case using step by (intro exI [of _ "Suc k"]) auto
qed

text \<open>
  C18: With the drop policy the dispatcher can always be stopped. In every reachable state in which it
  has not returned yet, whatever state the consumers and the engine are in (running, draining,
  closed, their queues full), it gets through the event in its hand in as many submissions as are
  left and then, once the context is cancelled, returns.
\<close>

theorem dispatcher_can_stop:
  assumes "startup U rx sdk ld now path info = Inr a" and "Load U ld path = Inr cfg"
    and "pc_DropOnFull (cfg_Pipeline cfg)"
    and "pipe_run U rx acts (pipe_start a) = Some s" and "pp_disp s \<noteq> Stopped"
  shows "\<exists>k s'. k \<le> length (pp_lanes s) + 1 \<and>
     pipe_run U rx (replicate k PSubmit @ [PCancel, PStop]) s = Some s' \<and> pp_disp s' = Stopped"
proof -
  note facts = pipe_run_facts [OF assms(1,2,4)]
  have stop: "\<exists>s'. pipe_run U rx [PCancel, PStop] t = Some s' \<and> pp_disp s' = Stopped" if "pp_disp t = Waiting" for t
    using that by simp
  show ?thesis
  proof (cases "pp_disp s")
    case Waiting
    with stop [of s] show ?thesis by (intro exI [of _ 0]) simp
  next
    case (Submitting ev i)
    have "\<forall>l\<in>set (pp_lanes s). c_drop (ln_c l)" using facts(4) assms(3) by (metis in_set_conv_nth)
    then obtain k t' where t': "k \<le> Suc (length (pp_lanes s) - i)" "pipe_run U rx (replicate k PSubmit) s = Some t'" "pp_disp t' = Waiting"
      using dispatcher_drive [OF Submitting refl] facts(5) assms(3) by blast
    obtain s' where s': "pipe_run U rx [PCancel, PStop] t' = Some s'" "pp_disp s' = Stopped" using stop [OF t'(3)] by blast
    then have "pipe_run U rx (replicate k PSubmit @ [PCancel, PStop]) s = Some s'"
      using t'(2) by (simp only: pipe_run_append option.case)
    with t'(1) s'(2) show ?thesis by (intro exI [of _ k]) auto
  qed (use assms(5) in simp)
qed

theorem dispatcher_can_stop_witness:
  "\<exists>s k s'. sample_pipe twin_loader two_events = Some s \<and>
     pipe_run ascii_only bad_regexp (replicate k PSubmit @ [PCancel, PStop]) s = Some s' \<and> pp_disp s' = Stopped"
proof -
  have "case sample_pipe twin_loader two_events of None \<Rightarrow> False | Some s \<Rightarrow> pp_disp s \<noteq> Stopped \<and> mc_drop (pp_mon s)" by code_simp
  then obtain s where s: "sample_pipe twin_loader two_events = Some s" "pp_disp s \<noteq> Stopped" "mc_drop (pp_mon s)"
    by (auto split: option.splits)
  obtain a cfg where a: "sample_startup twin_loader = Inr a"
    "pipe_run ascii_only bad_regexp two_events (pipe_start a) = Some s" "Load ascii_only twin_loader ''config.yaml'' = Inr cfg"
    "pc_DropOnFull (cfg_Pipeline cfg) = mc_drop (pp_mon s)"
    using sample_pipe_Some [OF s(1)] by blast
  from dispatcher_can_stop [OF a(1) [unfolded sample_startup_def] a(3) _ a(2) s(2)] a(4) s(1,3) show ?thesis by auto
qed

end
