(* ===== verification/AlertQueue.thy ===== *)
theory AlertQueue
  imports Pipeline
begin

text \<open>
  The alert engine inside the running pipeline: which events it gets to handle. The engine's queue is
  fed by the dispatcher after the last output (\<^verbatim>\<open>dispatcher.run\<close> in \<^verbatim>\<open>internal/app/app.go\<close>) and emptied by
  \<^verbatim>\<open>Engine.Run\<close> in \<^verbatim>\<open>internal/alert/alert.go\<close>; here both are actions of one run, interleaved with all
  others.
\<close>

section \<open>The events handled in a run\<close>

definition engine_queue_of :: "pipe \<Rightarrow> Event list" where
  "engine_queue_of s = (case pp_alerts s of None \<Rightarrow> [] | Some (running, e) \<Rightarrow> ch_buf (en_in e))"

text \<open>The event that an action takes off the engine's queue.\<close>

fun taken :: "p_action \<Rightarrow> pipe \<Rightarrow> Event list" where
  "taken (PEngine (EHandle now env)) s = take 1 (engine_queue_of s)"
| "taken a s = []"

fun engine_handled :: "unicode \<Rightarrow> regexp_engine \<Rightarrow> p_action list \<Rightarrow> pipe \<Rightarrow> Event list" where
  "engine_handled U rx [] s = []"
| "engine_handled U rx (a # as) s =
     (case pipe_next U rx a s of None \<Rightarrow> [] | Some s1 \<Rightarrow> taken a s @ engine_handled U rx as s1)"

section \<open>The invariant\<close>

text \<open>\<open>h\<close> are the events handled so far, \<open>k\<close> the events that went past the dispatcher's filter.\<close>

definition engine_account :: "Event list \<Rightarrow> Event list \<Rightarrow> Engine \<Rightarrow> bool" where
  "engine_account h k e \<longleftrightarrow> subseq (h @ ch_buf (en_in e)) k \<and> (\<not> en_drop e \<longrightarrow> h @ ch_buf (en_in e) = k) \<and>
     en_dropped e + of_nat (length h + Engine_QueueDepth e) = of_nat (length k)"

definition alert_inv :: "Event list \<Rightarrow> pipe \<Rightarrow> bool" where
  "alert_inv h s \<longleftrightarrow> (case pp_alerts s of
     None \<Rightarrow> h = [] | Some (r, e) \<Rightarrow> engine_account h (kept_events (pp_ignored s) (pp_finished s)) e)"

lemma engine_account_submit:
  assumes "engine_account h k e" "Engine_Submit e ev = Some (e', es)"
  shows "engine_account h (k @ [ev]) e'"
proof -
  consider "e' = e\<lparr>en_in := (en_in e)\<lparr>ch_buf := ch_buf (en_in e) @ [ev]\<rparr>\<rparr>"
    | "en_drop e" "e' = e\<lparr>en_dropped := en_dropped e + 1\<rparr>"
  proof (cases "ch_room (en_in e)")
    case True
    with assms(2) that(1) show ?thesis by (simp add: Engine_Submit_def ch_send_def split: if_splits)
  next
    case False
    with assms(2) that(2) show ?thesis by (simp add: Engine_Submit_def ch_send_def split: if_splits)
  qed
  then show ?thesis
  proof cases
    case 1
    have "subseq ((h @ ch_buf (en_in e)) @ [ev]) (k @ [ev])"
      using assms(1) unfolding engine_account_def by (intro list_emb_append_mono) simp_all
    with assms(1) 1 show ?thesis by (simp add: engine_account_def Engine_QueueDepth_def algebra_simps)
  next
    case 2
    have "subseq (h @ ch_buf (en_in e)) (k @ [ev])"
      using assms(1) unfolding engine_account_def by (auto intro: subseq_rev_drop_many)
    with assms(1) 2 show ?thesis by (simp add: engine_account_def Engine_QueueDepth_def algebra_simps)
  qed
qed

lemma handle_frame: "handle rx now env ev e = (e', es) \<Longrightarrow> en_in e' = en_in e \<and> en_drop e' = en_drop e \<and> en_dropped e' = en_dropped e"
  by (auto simp: handle_def rateLimitAllow_def Let_def split: option.splits if_splits)

lemma engine_account_step:
  assumes "engine_account h k e" "engine_step rx act r e = Some (r', e', es)"
  shows "engine_account (h @ (case act of EHandle now env \<Rightarrow> take 1 (ch_buf (en_in e)) | ECancel \<Rightarrow> [])) k e'"
proof (cases act)
  case (EHandle now env)
  then obtain ev q where q: "ch_buf (en_in e) = ev # q" and h: "handle rx now env ev (e\<lparr>en_in := (en_in e)\<lparr>ch_buf := q\<rparr>\<rparr>) = (e', es)"
    using assms(2) by (auto simp: go_chan split: if_splits option.splits list.splits)
  from handle_frame [OF h] assms(1) q EHandle show ?thesis
    by (simp add: engine_account_def Engine_QueueDepth_def)
next
  case ECancel
  with assms show ?thesis by (auto split: if_splits)
qed

lemma alert_inv_step:
  assumes "alert_inv h s" "disp_inv s" "pipe_next U rx a s = Some s'"
  shows "alert_inv (h @ taken a s) s'"
proof (cases a)
  case PReceive
  with assms show ?thesis
    by (auto simp: alert_inv_def disp_receive_def Let_def split: option.splits if_splits)
next
  case PSubmit
  with assms(3) obtain ev i where d: "pp_disp s = Submitting ev i" by (auto simp: disp_submit_def split: disp_pc.splits)
  with assms(2) have ign: "ev_Command ev \<notin> pp_ignored s" by (simp add: disp_inv_def)
  show ?thesis
  proof (cases "i < length (pp_lanes s)")
    case True
    with assms(1,3) d PSubmit show ?thesis by (auto simp: alert_inv_def disp_submit_def split: option.splits)
  next
    case False
    with assms(1,3) d PSubmit ign show ?thesis
      by (auto simp: alert_inv_def disp_submit_def Let_def dest: engine_account_submit split: option.splits)
  qed
next
  case (PEngine act)
  then obtain r e r' e' es where e: "pp_alerts s = Some (r, e)" "s' = s\<lparr>pp_alerts := Some (r', e')\<rparr>"
    and st: "engine_step rx act r e = Some (r', e', es)" using assms(3) by (auto split: option.splits if_splits)
  from engine_account_step [OF _ st] assms(1) e PEngine show ?thesis
    by (cases act) (fastforce simp: alert_inv_def engine_queue_of_def)+
qed (use assms in \<open>auto simp: alert_inv_def split: option.splits if_splits\<close>)

lemma alert_inv_run:
  assumes "pipe_run U rx as s = Some s'" "alert_inv h s" "pipe_inv s"
  shows "alert_inv (h @ engine_handled U rx as s) s'"
  using assms
proof (induction as arbitrary: s h)
  case (Cons a as)
  then obtain s1 where s1: "pipe_next U rx a s = Some s1" "pipe_run U rx as s1 = Some s'" by (auto split: option.splits)
  have "alert_inv (h @ taken a s) s1" using alert_inv_step [OF Cons.prems(2) _ s1(1)] Cons.prems(3) by (simp add: pipe_inv_def)
  from Cons.IH [OF s1(2) this pipe_inv_step [OF Cons.prems(3) s1(1)]] s1(1) show ?case by simp
qed simp

lemma alert_inv_start:
  assumes "startup U rx sdk ld now path info = Inr a" "Load U ld path = Inr cfg"
  shows "alert_inv [] (pipe_start a)"
proof -
  obtain lg sentry cs al where a: "a = app_for U now info cfg lg sentry cs al" and al: "buildAlertEngine U rx cfg = Inr al"
    using startup_Inr [OF assms] by blast
  have "ch_buf (en_in e) = [] \<and> en_dropped e = 0" if "al = Some e" for e
  proof -
    have new: "New_Engine U rx (alert_options U cfg) = Inr e"
      using al that by (auto simp: buildAlertEngine_def split: if_splits sum.splits)
    moreover have "en_dropped e = 0" using new by (auto simp: New_Engine_def Let_def split: list.splits)
    ultimately show ?thesis using New_Engine_Inr(4) [OF new] by (simp add: make_chan_def)
  qed
  then show ?thesis
    by (auto simp: alert_inv_def engine_account_def Engine_QueueDepth_def pipe_start_def a app_for_def kept_events_def
        split: option.split)
qed

lemma engine_account_reached:
  assumes "startup U rx sdk ld now path info = Inr a" "Load U ld path = Inr cfg"
    and "pipe_run U rx acts (pipe_start a) = Some s" "pp_alerts s = Some (r, e)"
  shows "engine_account (engine_handled U rx acts (pipe_start a)) (kept_events (IgnoredSet U (cfg_Filter cfg)) (pp_finished s)) e"
  using alert_inv_run [OF assms(3) alert_inv_start [OF assms(1,2)] pipe_start_inv(1) [OF assms(1,2)]]
    pipe_run_facts(2) [OF assms(1-3)] assms(4) by (simp add: alert_inv_def)

section \<open>Properties\<close>

text \<open>
  C6: The alert engine sees the same stream as the outputs. However the goroutines of a started
  application are scheduled, the events the engine has handled followed by those in its queue are, in
  the order in which the client sent them, a part of the events whose command is not ignored. Without
  the drop policy nothing is missing: adding the event in the dispatcher's hand and what waits in the
  client's channel gives exactly the events sent. With it, the engine's drop counter accounts for
  every event the dispatcher finished that was not queued.
\<close>

theorem alerts_in_order:
  assumes "startup U rx sdk ld now path info = Inr a" and "Load U ld path = Inr cfg"
    and "pipe_run U rx acts (pipe_start a) = Some s" and "pp_alerts s = Some (r, e)"
    and "h = engine_handled U rx acts (pipe_start a)" and "ign = IgnoredSet U (cfg_Filter cfg)"
  shows "subseq (h @ ch_buf (en_in e)) (filter (\<lambda>ev. ev_Command ev \<notin> ign) (pp_sent s)) \<and>
    (\<not> pc_DropOnFull (cfg_Pipeline cfg) \<longrightarrow>
       h @ ch_buf (en_in e) @ in_hand s (length (pp_lanes s)) @ filter (\<lambda>ev. ev_Command ev \<notin> ign) (out_buf (pp_mon s)) =
       filter (\<lambda>ev. ev_Command ev \<notin> ign) (pp_sent s)) \<and>
    en_dropped e + of_nat (length h + Engine_QueueDepth e) =
      of_nat (length (filter (\<lambda>ev. ev_Command ev \<notin> ign) (pp_finished s)))"
proof -
  note f = pipe_run_facts [OF assms(1-3)]
  have acc: "engine_account h (kept_events ign (pp_finished s)) e"
    using engine_account_reached [OF assms(1-4)] assms(5,6) by simp
  let ?hand = "in_hand s (length (pp_lanes s))"
  have "kept_events ign (current s) = ?hand"
    using f(1,2) assms(6) by (auto simp: current_def in_hand_def pipe_inv_def disp_inv_def kept_events_def split: disp_pc.splits)
  then have kept: "kept_events ign (pp_finished s @ current s) = kept_events ign (pp_finished s) @ ?hand" by simp
  have "subseq (h @ ch_buf (en_in e)) (kept_events ign (pp_finished s))" using acc by (simp add: engine_account_def)
  also have "subseq \<dots> (kept_events ign (pp_finished s) @ ?hand)" by (simp add: prefix_imp_subseq)
  also have "subseq \<dots> (kept_events ign (pp_sent s))" using stream_kept(1) [OF f(1), of ign] unfolding kept .
  finally have "subseq (h @ ch_buf (en_in e)) (kept_events ign (pp_sent s))" .
  moreover have "h @ ch_buf (en_in e) @ ?hand @ kept_events ign (out_buf (pp_mon s)) = kept_events ign (pp_sent s)"
    if "\<not> pc_DropOnFull (cfg_Pipeline cfg)"
  proof -
    have "h @ ch_buf (en_in e) = kept_events ign (pp_finished s)"
      using acc f(5) [OF assms(4)] that by (simp add: engine_account_def)
    moreover have "\<not> mc_drop (pp_mon s)" using f(3) that by simp
    ultimately show ?thesis using stream_kept(2) [OF f(1), of ign, unfolded kept] by (metis append.assoc)
  qed
  moreover have "en_dropped e + of_nat (length h + Engine_QueueDepth e) = of_nat (length (kept_events ign (pp_finished s)))"
    using acc by (simp add: engine_account_def)
  ultimately show ?thesis unfolding kept_events_def by blast
qed

text \<open>An application with one output that alerts on one suspicious command, without the drop policy.\<close>

definition guard_loader :: loader where
  "guard_loader =
     \<lparr>ld_read = (\<lambda>_. Inr []),
      ld_decode = (\<lambda>_ c. Inr (c\<lparr>cfg_Alerts := (cfg_Alerts c)\<lparr>ac_Enabled := True, ac_SuspiciousCommands := [''FLUSHALL''],
          ac_Webhook := (ac_Webhook (cfg_Alerts c))\<lparr>wc_Enabled := True, wc_URL := ''http://h/''\<rparr>\<rparr>,
        cfg_Outputs := [stdout_output], cfg_Pipeline := \<lparr>pc_EventBuffer = 10, pc_ConsumerBuffer = 2, pc_DropOnFull = False\<rparr>\<rparr>)),
      ld_env = (\<lambda>_. None), ld_fscale = (\<lambda>_ _ _. 0)\<rparr>"

text \<open>The first event is handled, the second is in the engine's queue and the third on the channel.\<close>

definition guard_run :: "p_action list" where
  "guard_run =
     [PSend (sample_event ''GET'' []), PSend (sample_event ''FLUSHALL'' []), PSend (sample_event ''SET'' []),
      PReceive, PSubmit, PSubmit, PEngine (EHandle 0 (\<lambda>_ _. sample_send 200)), PReceive, PSubmit, PSubmit]"

definition sample_handled :: "loader \<Rightarrow> p_action list \<Rightarrow> Event list" where
  "sample_handled ld acts =
     (case sample_startup ld of Inl _ \<Rightarrow> [] | Inr a \<Rightarrow> engine_handled ascii_only bad_regexp acts (pipe_start a))"

theorem alerts_in_order_witness:
  "\<exists>s e. sample_pipe guard_loader guard_run = Some s \<and> pp_alerts s = Some (True, e) \<and>
     map ev_Command (sample_handled guard_loader guard_run) = [''GET''] \<and>
     map ev_Command (sample_handled guard_loader guard_run @ ch_buf (en_in e) @ in_hand s 1 @ out_buf (pp_mon s)) =
       [''GET'', ''FLUSHALL'', ''SET'']"
proof -
  have "(case sample_pipe guard_loader guard_run of None \<Rightarrow> False
      | Some s \<Rightarrow> (case pp_alerts s of None \<Rightarrow> False | Some (r, e) \<Rightarrow> r) \<and> length (pp_lanes s) = 1 \<and>
          map ev_Command (pp_sent s) = [''GET'', ''FLUSHALL'', ''SET''] \<and> \<not> mc_drop (pp_mon s) \<and> pp_ignored s = {}) \<and>
      map ev_Command (sample_handled guard_loader guard_run) = [''GET'']" by code_simp
  then obtain s e where s: "sample_pipe guard_loader guard_run = Some s" "pp_alerts s = Some (True, e)" "length (pp_lanes s) = 1"
    "map ev_Command (pp_sent s) = [''GET'', ''FLUSHALL'', ''SET'']" "\<not> mc_drop (pp_mon s)" "pp_ignored s = {}"
    and h: "map ev_Command (sample_handled guard_loader guard_run) = [''GET'']"
    by (auto split: option.splits)
  obtain a cfg where a: "sample_startup guard_loader = Inr a"
    "pipe_run ascii_only bad_regexp guard_run (pipe_start a) = Some s" "Load ascii_only guard_loader ''config.yaml'' = Inr cfg"
    "pc_DropOnFull (cfg_Pipeline cfg) = mc_drop (pp_mon s)" "IgnoredSet ascii_only (cfg_Filter cfg) = pp_ignored s"
    using sample_pipe_Some [OF s(1)] by blast
  have "map ev_Command (sample_handled guard_loader guard_run @ ch_buf (en_in e) @ in_hand s 1 @ out_buf (pp_mon s)) =
       [''GET'', ''FLUSHALL'', ''SET'']"
    using alerts_in_order [OF a(1) [unfolded sample_startup_def] a(3,2) s(2) refl refl] a(1,4,5) s(3-6)
    by (simp add: sample_handled_def del: map_append)
  with s(1,2) h show ?thesis by (intro exI [of _ s] exI [of _ e] conjI)
qed

end
