(* ===== verification/Shutdown.thy ===== *)
theory Shutdown
  imports AlertQueue
begin

text \<open>
  What is left when the program has shut down. Every goroutine of the pipeline stops by itself after
  the context is cancelled: the dispatcher returns at its select without emptying the client's
  channel (\<^verbatim>\<open>dispatcher.run\<close> in \<^verbatim>\<open>internal/app/app.go\<close>), a consumer drains its own queue and closes
  (\<^verbatim>\<open>internal/output/output.go\<close>), the alert engine returns at once (\<^verbatim>\<open>internal/alert/alert.go\<close>). No
  order between them is enforced.
\<close>

section \<open>The end of a pipeline\<close>

definition pipeline_over :: "pipe \<Rightarrow> bool" where
  "pipeline_over s \<longleftrightarrow> pp_disp s = Stopped \<and> Manager_Run_done s \<and>
     (case pp_alerts s of None \<Rightarrow> True | Some (running, e) \<Rightarrow> \<not> running)"

text \<open>The events that consumer \<open>i\<close> never gets to write.\<close>

definition unwritten :: "pipe \<Rightarrow> nat \<Rightarrow> Event list" where
  "unwritten s i = ch_buf (c_in (ln_c (pp_lanes s ! i))) @ kept_events (pp_ignored s) (out_buf (pp_mon s))"

lemma closed_lane_silent:
  assumes "lane_step U a l = Some l'" "ln_phase l = Closed" "\<not> is_submit a"
  shows False
  using assms by (cases a) (auto simp: lane_step_def)

lemma over_step:
  assumes "pipeline_over s" "pipe_next U rx a s = Some s'"
  shows "pipeline_over s' \<and> pp_lanes s' = pp_lanes s \<and> pp_alerts s' = pp_alerts s"
proof (cases a)
  case (PConsumer i act)
  with assms have "i < length (pp_lanes s)" "\<not> is_submit act" "\<exists>l. lane_step U act (pp_lanes s ! i) = Some l"
    by (auto split: if_splits)
  moreover have "ln_phase (pp_lanes s ! i) = Closed"
    using assms(1) calculation(1) by (simp add: pipeline_over_def Manager_Run_done_def list_all_length)
  ultimately show ?thesis using closed_lane_silent by blast
next
  case (PEngine act)
  with assms show ?thesis by (cases act) (auto simp: pipeline_over_def split: option.splits if_splits)
next
  case PReceive
  with assms show ?thesis by (simp add: pipeline_over_def disp_receive_def)
next
  case PSubmit
  with assms show ?thesis by (simp add: pipeline_over_def disp_submit_def)
qed (use assms in \<open>auto simp: pipeline_over_def Manager_Run_done_def\<close>)

lemma over_run:
  assumes "pipe_run U rx acts s = Some s'" "pipeline_over s"
  shows "pipeline_over s' \<and> pp_lanes s' = pp_lanes s \<and> pp_alerts s' = pp_alerts s"
proof (rule pipe_run_preserves [OF assms(1)])
  show "pipeline_over s \<and> pp_lanes s = pp_lanes s \<and> pp_alerts s = pp_alerts s" using assms(2) by simp
  show "pipeline_over t' \<and> pp_lanes t' = pp_lanes s \<and> pp_alerts t' = pp_alerts s"
    if "pipeline_over t \<and> pp_lanes t = pp_lanes s \<and> pp_alerts t = pp_alerts s" "pipe_next U rx a t = Some t'" for a t t'
    using over_step [OF _ that(2)] that(1) by auto
qed

lemma over_handles_nothing:
  assumes "pipeline_over s"
  shows "engine_handled U rx acts s = []"
  using assms
proof (induction acts arbitrary: s)
  case (Cons a acts)
  show ?case
  proof (cases "pipe_next U rx a s")
    case (Some s1)
    have "taken a s = []"
      using Cons.prems Some by (cases "(a, s)" rule: taken.cases) (auto simp: pipeline_over_def split: option.splits if_splits)
    with Cons Some over_step [OF Cons.prems Some] show ?thesis by simp
  qed simp
qed simp

section \<open>Properties\<close>

text \<open>
  C19: What a finished shutdown has lost. Once the dispatcher, the consumers and the alert engine of a
  started application have returned, nothing that happens afterwards is written by a sink or handled
  by the engine. Without the drop policy what sink \<open>i\<close> was given, followed by what is left in its
  queue and in the client's channel, is exactly the events the client sent that are not ignored, and
  what the engine handled, followed by what is left in its queue, is exactly what the dispatcher
  finished of them: the left-over events are lost. No counter tells: the consumer's counters account
  only for the events the dispatcher finished, and the client counts only those it could not put on
  its channel.
\<close>

theorem shutdown_accounting:
  assumes "startup U rx sdk ld now path info = Inr a" and "Load U ld path = Inr cfg"
    and "pipe_run U rx acts (pipe_start a) = Some s" and "pipeline_over s" and "i < length (pp_lanes s)"
    and "pipe_run U rx later s = Some s'" and "c = ln_c (pp_lanes s ! i)"
    and "ign = IgnoredSet U (cfg_Filter cfg)"
  shows "attempts (ln_es (pp_lanes s' ! i)) = attempts (ln_es (pp_lanes s ! i)) \<and>
    engine_handled U rx later s = [] \<and>
    (\<not> pc_DropOnFull (cfg_Pipeline cfg) \<longrightarrow>
       attempts (ln_es (pp_lanes s ! i)) @ unwritten s i = filter (\<lambda>ev. ev_Command ev \<notin> ign) (pp_sent s)) \<and>
    (\<forall>r e. pp_alerts s = Some (r, e) \<and> \<not> pc_DropOnFull (cfg_Pipeline cfg) \<longrightarrow>
       engine_handled U rx acts (pipe_start a) @ ch_buf (en_in e) = filter (\<lambda>ev. ev_Command ev \<notin> ign) (pp_finished s)) \<and>
    c_written c + c_errors c + c_dropped c + of_nat (QueueDepth c) =
      of_nat (length (filter (\<lambda>ev. ev_Command ev \<notin> ign) (pp_finished s))) \<and>
    mc_dropped (pp_mon s) + of_nat (length (pp_finished s) + length (out_buf (pp_mon s))) = of_nat (length (pp_sent s))"
proof -
  note f = pipe_run_facts [OF assms(1-3)]
  have d: "pp_disp s = Stopped" using assms(4) by (simp add: pipeline_over_def)
  have cons: "conserved c (ln_acts (pp_lanes s ! i)) (ln_es (pp_lanes s ! i))"
    and sub: "submitted (ln_acts (pp_lanes s ! i)) = kept_events ign (pp_finished s)"
    using f(1,2) assms(5,7,8) d by (auto simp: pipe_inv_def lanes_inv_def given_def Let_def)
  have chan: "mc_dropped (pp_mon s) + of_nat (length (pp_finished s) + length (out_buf (pp_mon s))) = of_nat (length (pp_sent s))"
    using f(1) d unfolding pipe_inv_def chan_inv_def Let_def by simp
  have "attempts (ln_es (pp_lanes s ! i)) @ unwritten s i = kept_events ign (pp_sent s)"
    if "\<not> pc_DropOnFull (cfg_Pipeline cfg)"
  proof -
    have "attempts (ln_es (pp_lanes s ! i)) @ ch_buf (c_in c) = kept_events ign (pp_finished s)"
      using cons f(4) [OF assms(5)] that assms(7) sub by (simp add: conserved_def)
    moreover have "kept_events ign (pp_sent s) = kept_events ign (pp_finished s) @ kept_events ign (out_buf (pp_mon s))"
      using stream_kept(2) [OF f(1), of ign] f(3) that d by (simp add: current_def)
    ultimately show ?thesis using f(2) assms(7,8) by (simp add: unwritten_def)
  qed
  moreover have "engine_handled U rx acts (pipe_start a) @ ch_buf (en_in e) = kept_events ign (pp_finished s)"
    if "pp_alerts s = Some (r, e)" "\<not> pc_DropOnFull (cfg_Pipeline cfg)" for r e
    using engine_account_reached [OF assms(1-3) that(1)] f(5) [OF that(1)] that(2) assms(8) by (simp add: engine_account_def)
  moreover have "c_written c + c_errors c + c_dropped c + of_nat (QueueDepth c) = of_nat (length (kept_events ign (pp_finished s)))"
    using cons sub by (simp add: conserved_def)
  ultimately show ?thesis
    using over_run [OF assms(6,4)] over_handles_nothing [OF assms(4)] chan unfolding kept_events_def by auto
qed

text \<open>
  A run that loses two of three events for the output and two for the alerts: the first is written and
  handled, the consumer drains its empty queue and closes, the engine returns, the dispatcher submits
  the second to both, and then returns with the third still on the channel.
\<close>

definition lossy_shutdown :: "p_action list" where
  "lossy_shutdown =
     [PSend (sample_event ''SET'' []), PSend (sample_event ''FLUSHALL'' []), PSend (sample_event ''DEL'' []),
      PReceive, PSubmit, PSubmit, PConsumer 0 (AWrite env_ok), PEngine (EHandle 0 (\<lambda>_ _. sample_send 200)),
      PReceive, PCancel, PConsumer 0 ACancel, PConsumer 0 AEmpty, PConsumer 0 (AClose env_ok), PEngine ECancel,
      PSubmit, PSubmit, PStop]"

definition lost_silently :: "pipe \<Rightarrow> bool" where
  "lost_silently s \<longleftrightarrow> map ev_Command (unwritten s 0) = [''FLUSHALL'', ''DEL''] \<and> map ev_Command (engine_queue_of s) = [''FLUSHALL''] \<and>
     c_errors (ln_c (pp_lanes s ! 0)) = 0 \<and> c_dropped (ln_c (pp_lanes s ! 0)) = 0 \<and> mc_dropped (pp_mon s) = 0"

theorem shutdown_accounting_witness:
  "\<exists>s. sample_pipe guard_loader lossy_shutdown = Some s \<and> lost_silently s \<and>
     (\<forall>later s'. pipe_run ascii_only bad_regexp later s = Some s' \<longrightarrow>
        map ev_Command (attempts (ln_es (pp_lanes s' ! 0)) @ unwritten s 0) = [''SET'', ''FLUSHALL'', ''DEL''] \<and>
        engine_handled ascii_only bad_regexp later s = [])"
proof -
  have "case sample_pipe guard_loader lossy_shutdown of None \<Rightarrow> False
      | Some s \<Rightarrow> pipeline_over s \<and> 0 < length (pp_lanes s) \<and> lost_silently s \<and>
          map ev_Command (pp_sent s) = [''SET'', ''FLUSHALL'', ''DEL''] \<and> \<not> mc_drop (pp_mon s) \<and> pp_ignored s = {}"
    by code_simp
  then obtain s where s: "sample_pipe guard_loader lossy_shutdown = Some s" "pipeline_over s" "0 < length (pp_lanes s)"
    "lost_silently s" "map ev_Command (pp_sent s) = [''SET'', ''FLUSHALL'', ''DEL'']" "\<not> mc_drop (pp_mon s)" "pp_ignored s = {}"
    by (auto split: option.splits)
  obtain a cfg where a: "sample_startup guard_loader = Inr a"
    "pipe_run ascii_only bad_regexp lossy_shutdown (pipe_start a) = Some s" "Load ascii_only guard_loader ''config.yaml'' = Inr cfg"
    "pc_DropOnFull (cfg_Pipeline cfg) = mc_drop (pp_mon s)" "IgnoredSet ascii_only (cfg_Filter cfg) = pp_ignored s"
    using sample_pipe_Some [OF s(1)] by blast
  have "map ev_Command (attempts (ln_es (pp_lanes s' ! 0)) @ unwritten s 0) = [''SET'', ''FLUSHALL'', ''DEL''] \<and>
      engine_handled ascii_only bad_regexp later s = []"
    if "pipe_run ascii_only bad_regexp later s = Some s'" for later s'
    using shutdown_accounting [OF a(1) [unfolded sample_startup_def] a(3,2) s(2,3) that refl refl] a(4,5) s(5-7)
    by (simp del: map_append)
  then show ?thesis using s(1,4) by auto
qed

end
