(* ===== verification/Failover.thy ===== *)
theory Failover
  imports Role
begin

text \<open>
  The MONITOR client and the role checker together, as they run in the program when monitoring a
  replica is not allowed: the loop of \<^verbatim>\<open>Client.Run\<close>, the stages of \<^verbatim>\<open>runOnce\<close>, the
  goroutine that \<^verbatim>\<open>runOnce\<close> starts to watch the gate (\<^verbatim>\<open>internal/monitor/client.go\<close>),
  and the probes and the \<^verbatim>\<open>Wait\<close> of \<^verbatim>\<open>internal/role/role.go\<close>, interleaved at their
  atomic operations. What the session reads is the subject of theory \<^verbatim>\<open>Monitor\<close>; here a
  session only lasts until its connection breaks.
\<close>

section \<open>State\<close>

text \<open>
  \<^item> \<open>CLoop\<close>: the head of the loop; \<open>CWait\<close>: inside \<^verbatim>\<open>gate.Wait\<close>, whose own position is
    that of the checker's model;
  \<^item> \<open>CDial\<close>, \<open>CSubscribe\<close>, \<open>CSession\<close>: \<^verbatim>\<open>runOnce\<close> before the dial returns, before
    \<^verbatim>\<open>gate.Subscribe\<close>, and after it;
  \<^item> \<open>CFailed\<close>: \<^verbatim>\<open>runOnce\<close> has returned an error other than the context's;
    \<open>CBackoff\<close>: the pause before the next attempt; \<open>CStopped\<close>: \<^verbatim>\<open>Run\<close> has returned.
\<close>

datatype client_pc = CLoop | CWait | CDial | CSubscribe | CSession | CFailed | CBackoff | CStopped

text \<open>
  The watcher of the current session: not there, blocked in its select, past the receive, or past
  the check that found the gate inactive. The watcher of an earlier session may still have to run
  its \<^verbatim>\<open>unsub\<close>; its connection is closed already, and it is one of the other subscribers.
\<close>

datatype watch_pc = WatchGone | Listening nat | Checking nat | Closing nat

record fsys =
  fs_sys :: sys
  fs_client :: client_pc
  fs_watch :: watch_pc
  fs_conn :: bool
  fs_late :: bool

text \<open>
  \<^const>\<open>fs_late\<close> is a history variable: the gate was inactive when the session subscribed, and
  the watcher has not seen it active since.
\<close>

abbreviation gate_open :: "fsys \<Rightarrow> bool" where
  "gate_open s \<equiv> IsActive (sy_checker (fs_sys s))"

abbreviation on_checker :: "(Checker \<Rightarrow> Checker) \<Rightarrow> fsys \<Rightarrow> fsys" where
  "on_checker f s \<equiv> s\<lparr>fs_sys := (fs_sys s)\<lparr>sy_checker := f (sy_checker (fs_sys s))\<rparr>\<rparr>"

fun watch_channel :: "watch_pc \<Rightarrow> nat option" where
  "watch_channel WatchGone = None"
| "watch_channel (Listening ch) = Some ch"
| "watch_channel (Checking ch) = Some ch"
| "watch_channel (Closing ch) = Some ch"

definition fsys_init :: "RoleOptions \<Rightarrow> bool \<Rightarrow> fsys" where
  "fsys_init opts m =
     \<lparr>fs_sys = sys_init opts m, fs_client = CLoop, fs_watch = WatchGone, fs_conn = False, fs_late = False\<rparr>"

section \<open>Steps\<close>

text \<open>
  The client: one rule for each way its loop and \<^verbatim>\<open>runOnce\<close> can go on. A dial ends the loop when
  the context is cancelled, and also when it times out.
\<close>

inductive client_step :: "fsys \<Rightarrow> fsys \<Rightarrow> bool" where
  loop_stop: "fs_client s = CLoop \<Longrightarrow> sy_done (fs_sys s) \<Longrightarrow> client_step s (s\<lparr>fs_client := CStopped\<rparr>)"
| loop_active: "fs_client s = CLoop \<Longrightarrow> gate_open s \<Longrightarrow> client_step s (s\<lparr>fs_client := CDial\<rparr>)"
| loop_inactive: "fs_client s = CLoop \<Longrightarrow> \<not> gate_open s \<Longrightarrow>
    client_step s (s\<lparr>fs_client := CWait, fs_sys := (fs_sys s)\<lparr>sy_wait := WEnter\<rparr>\<rparr>)"
| waiting: "fs_client s = CWait \<Longrightarrow> sys_step (fs_sys s) y \<Longrightarrow> sy_wait y \<noteq> sy_wait (fs_sys s) \<Longrightarrow>
    client_step s (s\<lparr>fs_sys := y\<rparr>)"
| wait_returned: "fs_client s = CWait \<Longrightarrow> sy_wait (fs_sys s) = WReturned \<Longrightarrow>
    client_step s (s\<lparr>fs_client := CDial\<rparr>)"
| wait_cancelled: "fs_client s = CWait \<Longrightarrow> sy_wait (fs_sys s) = WCancelled \<Longrightarrow>
    client_step s (s\<lparr>fs_client := CStopped\<rparr>)"
| dial_ok: "fs_client s = CDial \<Longrightarrow> client_step s (s\<lparr>fs_client := CSubscribe, fs_conn := True\<rparr>)"
| dial_fails: "fs_client s = CDial \<Longrightarrow> client_step s (s\<lparr>fs_client := CFailed\<rparr>)"
| dial_stops: "fs_client s = CDial \<Longrightarrow> client_step s (s\<lparr>fs_client := CStopped\<rparr>)"
| session_subscribe: "fs_client s = CSubscribe \<Longrightarrow> subscribe (sy_checker (fs_sys s)) = (ch, c') \<Longrightarrow>
    client_step s (s\<lparr>fs_client := CSession, fs_watch := Listening ch, fs_late := \<not> gate_open s,
                     fs_sys := (fs_sys s)\<lparr>sy_checker := c'\<rparr>\<rparr>)"
| session_fails: "fs_client s = CSession \<Longrightarrow>
    client_step s (s\<lparr>fs_client := CFailed, fs_watch := WatchGone, fs_conn := False\<rparr>)"
| session_stops: "fs_client s = CSession \<Longrightarrow> sy_done (fs_sys s) \<Longrightarrow>
    client_step s (s\<lparr>fs_client := CStopped, fs_watch := WatchGone, fs_conn := False\<rparr>)"
| failed_inactive: "fs_client s = CFailed \<Longrightarrow> \<not> gate_open s \<Longrightarrow> client_step s (s\<lparr>fs_client := CLoop\<rparr>)"
| failed_active: "fs_client s = CFailed \<Longrightarrow> gate_open s \<Longrightarrow> client_step s (s\<lparr>fs_client := CBackoff\<rparr>)"
| backoff_over: "fs_client s = CBackoff \<Longrightarrow> client_step s (s\<lparr>fs_client := CLoop\<rparr>)"
| backoff_stop: "fs_client s = CBackoff \<Longrightarrow> sy_done (fs_sys s) \<Longrightarrow> client_step s (s\<lparr>fs_client := CStopped\<rparr>)"

text \<open>The watcher of the session, and the goroutine that closes the connection with the context.\<close>

inductive watch_step :: "fsys \<Rightarrow> fsys \<Rightarrow> bool" where
  watch_receive: "fs_watch s = Listening ch \<Longrightarrow> signalled (sy_checker (fs_sys s)) ch \<Longrightarrow>
    watch_step s (on_checker (receive ch) s\<lparr>fs_watch := Checking ch\<rparr>)"
| watch_active: "fs_watch s = Checking ch \<Longrightarrow> gate_open s \<Longrightarrow>
    watch_step s (s\<lparr>fs_watch := Listening ch, fs_late := False\<rparr>)"
| watch_inactive: "fs_watch s = Checking ch \<Longrightarrow> \<not> gate_open s \<Longrightarrow>
    watch_step s (s\<lparr>fs_watch := Closing ch, fs_conn := False\<rparr>)"
| watch_unsub: "fs_watch s = Closing ch \<Longrightarrow>
    watch_step s (on_checker (cancel ch) s\<lparr>fs_watch := WatchGone\<rparr>)"
| watch_done: "fs_watch s = Listening ch \<Longrightarrow> sy_done (fs_sys s) \<Longrightarrow>
    watch_step s (on_checker (cancel ch) s\<lparr>fs_watch := WatchGone\<rparr>)"
| context_close: "fs_client s \<in> {CSubscribe, CSession} \<Longrightarrow> sy_done (fs_sys s) \<Longrightarrow>
    watch_step s (s\<lparr>fs_conn := False\<rparr>)"

text \<open>
  Everything else: probes, the other subscribers and the cancellation of the context. They do not
  move the \<^verbatim>\<open>Wait\<close> of the client, and only the watcher receives from its channel or cancels it.
\<close>

definition spares :: "nat option \<Rightarrow> Checker \<Rightarrow> Checker \<Rightarrow> bool" where
  "spares och c c' = (case och of None \<Rightarrow> True
     | Some ch \<Rightarrow> (registered c ch \<longrightarrow> registered c' ch) \<and> (signalled c ch \<longrightarrow> signalled c' ch))"

inductive other_step :: "fsys \<Rightarrow> fsys \<Rightarrow> bool" where
  others: "sys_step (fs_sys s) y \<Longrightarrow> sy_wait y = sy_wait (fs_sys s) \<Longrightarrow>
    spares (watch_channel (fs_watch s)) (sy_checker (fs_sys s)) (sy_checker y) \<Longrightarrow>
    other_step s (s\<lparr>fs_sys := y\<rparr>)"

definition fsys_step :: "fsys \<Rightarrow> fsys \<Rightarrow> bool" where
  "fsys_step s s' \<longleftrightarrow> client_step s s' \<or> watch_step s s' \<or> other_step s s'"

lemma fsys_stepI [intro]:
  "client_step s s' \<Longrightarrow> fsys_step s s'" "watch_step s s' \<Longrightarrow> fsys_step s s'" "other_step s s' \<Longrightarrow> fsys_step s s'"
  by (simp_all add: fsys_step_def)

inductive_cases client_step_elim: "client_step s s'"
inductive_cases watch_step_elim: "watch_step s s'"
inductive_cases other_step_elim: "other_step s s'"

section \<open>Invariant\<close>

text \<open>
  A session whose gate is inactive, and which subscribed while it was active, has a signal in its
  channel or one still to come.
\<close>

definition watch_inv :: "fsys \<Rightarrow> bool" where
  "watch_inv s \<longleftrightarrow>
     (\<forall>ch. watch_channel (fs_watch s) = Some ch \<longrightarrow> registered (sy_checker (fs_sys s)) ch) \<and>
     (\<forall>ch. fs_watch s = Listening ch \<and> \<not> gate_open s \<and> \<not> fs_late s \<longrightarrow>
        signalled (sy_checker (fs_sys s)) ch \<or> notice_due (fs_sys s))"

definition stage_inv :: "fsys \<Rightarrow> bool" where
  "stage_inv s \<longleftrightarrow>
     (fs_client s \<noteq> CSession \<longrightarrow> fs_watch s = WatchGone) \<and>
     (fs_client s \<notin> {CSubscribe, CSession} \<longrightarrow> \<not> fs_conn s) \<and>
     (fs_client s = CSession \<and> fs_conn s \<and> \<not> sy_done (fs_sys s) \<longrightarrow>
        (\<exists>ch. fs_watch s = Listening ch \<or> fs_watch s = Checking ch)) \<and>
     (fs_client s \<noteq> CWait \<longrightarrow> own_channel (sy_wait (fs_sys s)) = None)"

definition fsys_inv :: "fsys \<Rightarrow> bool" where
  "fsys_inv s \<longleftrightarrow> sys_inv (fs_sys s) \<and> watch_inv s \<and> stage_inv s"

lemma fsys_inv_init: "fsys_inv (fsys_init opts m)"
  by (simp add: fsys_inv_def watch_inv_def stage_inv_def fsys_init_def sys_inv_init) (simp add: sys_init_def)

text \<open>The steps of the client and of the watcher are, for the checker, those of another subscriber.\<close>

lemma sys_inv_other:
  assumes "sys_inv y" "own_channel (sy_wait y) = None"
  shows "sys_inv (y\<lparr>sy_checker := cancel ch (sy_checker y)\<rparr>)"
    "sys_inv (y\<lparr>sy_checker := receive ch (sy_checker y)\<rparr>)"
    "subscribe (sy_checker y) = (ch, c') \<Longrightarrow> sys_inv (y\<lparr>sy_checker := c'\<rparr>)"
  using assms sys_inv_step [OF sys_step.other_cancels [of y ch]] sys_inv_step [OF sys_step.other_receives [of y ch]]
    sys_inv_step [OF sys_step.other_subscribes [of y]]
  by simp_all

lemma sys_inv_enter: "sys_inv y \<Longrightarrow> sys_inv (y\<lparr>sy_wait := WEnter\<rparr>)"
  by (cases "sy_probe y") (simp_all add: sys_inv_def probe_ok_def)

lemma sys_inv_waiters: "sys_inv y \<Longrightarrow> waiters_ok (sy_checker y)"
  by (simp add: sys_inv_def)

text \<open>
  A step that spares a registered channel leaves it owed a signal: the store that makes the gate
  inactive opens the debt, and only the notification pays it.
\<close>

lemma store_channels [simp]:
  "registered (store_current role c) ch = registered c ch" "signalled (store_current role c) ch = signalled c ch"
  "registered (store_master role c) ch = registered c ch" "signalled (store_master role c) ch = signalled c ch"
  "signalled (fst (probe_failed e c)) ch = signalled c ch"
  by (simp_all add: store_current_def store_master_def probe_failed_def)

lemma quiet_step:
  assumes "sys_step y y'" "sy_probe y' = sy_probe y"
  shows "IsActive (sy_checker y') = IsActive (sy_checker y) \<and> notice_due y' = notice_due y"
proof -
  have "ck_isMaster (sy_checker y') = ck_isMaster (sy_checker y) \<and> ck_opts (sy_checker y') = ck_opts (sy_checker y) \<and>
      ck_current (sy_checker y') = ck_current (sy_checker y)"
    using assms
    by (cases rule: sys_step.cases) (auto simp: probe_failed_def subscribe_def cancel_def receive_def)
  with assms(2) show ?thesis
    by (simp add: IsActive_def IsMaster_def notice_due_def split: probe_pc.splits)
qed

lemma probe_moves:
  assumes "sys_step y y'" "sy_probe y' \<noteq> sy_probe y"
  obtains role where "sy_probe y = PIdle"
      "y' = y\<lparr>sy_checker := store_master role (sy_checker y), sy_probe := PMasterStored role\<rparr>"
  | role where "sy_probe y = PMasterStored role"
      "y' = y\<lparr>sy_checker := store_current role (sy_checker y),
              sy_probe := PCurrentStored (ck_current (sy_checker y)) role\<rparr>"
  | oldRole role where "sy_probe y = PCurrentStored oldRole role"
      "y' = y\<lparr>sy_checker := fst (publish oldRole role (sy_checker y)), sy_probe := PIdle\<rparr>"
  using assms(1) by (cases rule: sys_step.cases) (use assms(2) that in simp_all)

lemma owed_step:
  assumes step: "sys_step y y'" and inv: "sys_inv y" and reg: "registered (sy_checker y) ch"
    and sp: "spares (Some ch) (sy_checker y) (sy_checker y')"
    and owed: "\<not> IsActive (sy_checker y) \<Longrightarrow> signalled (sy_checker y) ch \<or> notice_due y"
    and off: "\<not> IsActive (sy_checker y')"
  shows "signalled (sy_checker y') ch \<or> notice_due y'"
proof (cases "sy_probe y' = sy_probe y")
  case True
  with quiet_step [OF step] owed sp off show ?thesis by (auto simp: spares_def)
next
  case False
  with step show ?thesis
  proof (cases rule: probe_moves)
    case (1 role)
    with inv off have "ck_current (sy_checker y) \<noteq> role \<or> \<not> IsActive (sy_checker y)"
      by (auto simp: store_master_def IsActive_def IsMaster_def sys_inv_defs split: if_splits)
    with 1 owed sp show ?thesis by (auto simp: notice_due_def spares_def store_master_def)
  next
    case (2 role)
    with off have "\<not> IsActive (sy_checker y)" by (simp add: store_current_def IsActive_def IsMaster_def split: if_splits)
    with 2 owed sp show ?thesis by (auto simp: notice_due_def spares_def)
  next
    case (3 oldRole role)
    with off have "\<not> IsActive (sy_checker y)"
      by (simp add: publish_def Let_def IsActive_def IsMaster_def notify_def split: if_splits)
    with 3 owed reg sp show ?thesis
      by (auto simp: publish_def Let_def signalled_notify notice_due_def spares_def)
  qed
qed

text \<open>Every step keeps the invariant.\<close>

lemmas fsys_inv_defs = fsys_inv_def watch_inv_def stage_inv_def

lemma client_step_inv:
  assumes "client_step s s'" "fsys_inv s"
  shows "fsys_inv s'"
  using assms(1)
proof (cases rule: client_step.cases)
  case (loop_inactive)
  with assms(2) show ?thesis
    by (simp add: fsys_inv_defs sys_inv_enter)
next
  case (waiting y)
  with assms(2) sys_inv_step [OF waiting(3)] show ?thesis
    by (simp add: fsys_inv_defs)
next
  case (session_subscribe ch c')
  have "sys_inv (fs_sys s)" "own_channel (sy_wait (fs_sys s)) = None"
    using assms(2) session_subscribe by (simp_all add: fsys_inv_defs)
  moreover have "IsActive c' = gate_open s"
    using role_gate.subscribe_active [of "sy_checker (fs_sys s)"] session_subscribe(3) by simp
  moreover have "registered c' ch" using session_subscribe(3) by (auto simp: subscribe_def registered_def)
  ultimately show ?thesis
    using session_subscribe sys_inv_other(3) by (simp add: fsys_inv_defs)
next
  case wait_returned
  with assms(2) show ?thesis by (simp add: fsys_inv_defs)
next
  case wait_cancelled
  with assms(2) show ?thesis by (simp add: fsys_inv_defs)
qed (use assms(2) in \<open>simp_all add: fsys_inv_defs\<close>)

lemma gate_open_ops [simp]:
  "IsActive (cancel ch c) = IsActive c" "IsActive (receive ch c) = IsActive c"
  by (simp_all add: IsActive_def IsMaster_def)

lemma watch_step_inv:
  assumes "watch_step s s'" "fsys_inv s"
  shows "fsys_inv s'"
proof -
  have base: "sys_inv (fs_sys s)" "waiters_ok (sy_checker (fs_sys s))"
    using assms(2) by (simp_all add: fsys_inv_def sys_inv_waiters)
  show ?thesis
    using assms(1)
    by (cases rule: watch_step.cases) (use assms(2) base in \<open>simp_all add: fsys_inv_defs sys_inv_other\<close>)
qed

lemma other_step_inv:
  assumes "other_step s s'" "fsys_inv s"
  shows "fsys_inv s'"
  using assms(1)
proof (cases rule: other_step.cases)
  case (others y)
  have "watch_inv s'"
    using assms(2) others owed_step [OF others(2)]
    by (cases "fs_watch s") (auto simp: fsys_inv_def watch_inv_def spares_def)
  moreover have "sy_done (fs_sys s) \<Longrightarrow> sy_done y" using others(2) by (cases rule: sys_step.cases) simp_all
  ultimately show ?thesis
    using assms(2) others sys_inv_step [OF others(2)] by (auto simp: fsys_inv_def stage_inv_def)
qed

lemma fsys_reachable_inv: "fsys_step\<^sup>*\<^sup>* (fsys_init opts m) s \<Longrightarrow> fsys_inv s"
  by (induction rule: rtranclp_induct)
    (auto simp: fsys_inv_init fsys_step_def intro: client_step_inv watch_step_inv other_step_inv)

section \<open>Progress\<close>

text \<open>A probe in progress runs to its end without moving anything else.\<close>

definition same_point :: "fsys \<Rightarrow> fsys \<Rightarrow> bool" where
  "same_point s t \<longleftrightarrow> gate_open t = gate_open s \<and>
     sy_wait (fs_sys t) = sy_wait (fs_sys s) \<and> sy_done (fs_sys t) = sy_done (fs_sys s) \<and>
     fs_client t = fs_client s \<and> fs_watch t = fs_watch s \<and> fs_conn t = fs_conn s \<and> fs_late t = fs_late s"

lemma same_point_refl [simp]: "same_point s s"
  by (simp add: same_point_def)

lemma same_point_trans [trans]: "same_point s t \<Longrightarrow> same_point t u \<Longrightarrow> same_point s u"
  by (simp add: same_point_def)

lemma finish_publish:
  assumes "sy_probe (fs_sys s) = PCurrentStored oldRole role"
  shows "\<exists>t. other_step s t \<and> sy_probe (fs_sys t) = PIdle \<and> same_point s t"
proof -
  let ?y = "(fs_sys s)\<lparr>sy_checker := fst (publish oldRole role (sy_checker (fs_sys s))), sy_probe := PIdle\<rparr>"
  have "spares (watch_channel (fs_watch s)) (sy_checker (fs_sys s)) (sy_checker ?y)"
    by (auto simp: spares_def publish_def Let_def signalled_notify signalled_registered split: option.split)
  with other_step.others [of s ?y] sys_step.probe_publish [OF assms]
  have "other_step s (s\<lparr>fs_sys := ?y\<rparr>)" by simp
  moreover have "IsActive (sy_checker ?y) = gate_open s"
    by (simp add: publish_def Let_def IsActive_def IsMaster_def notify_def)
  ultimately show ?thesis by (intro exI [of _ "s\<lparr>fs_sys := ?y\<rparr>"]) (simp add: same_point_def)
qed

lemma finish_current:
  assumes "sy_probe (fs_sys s) = PMasterStored role"
  shows "\<exists>t oldRole. other_step s t \<and> sy_probe (fs_sys t) = PCurrentStored oldRole role \<and> same_point s t"
proof -
  let ?c = "sy_checker (fs_sys s)"
  let ?y = "(fs_sys s)\<lparr>sy_checker := store_current role ?c, sy_probe := PCurrentStored (ck_current ?c) role\<rparr>"
  have "spares (watch_channel (fs_watch s)) ?c (sy_checker ?y)"
    by (auto simp: spares_def split: option.split)
  with other_step.others [of s ?y] sys_step.probe_current [OF assms]
  have "other_step s (s\<lparr>fs_sys := ?y\<rparr>)" by simp
  moreover have "IsActive (sy_checker ?y) = gate_open s"
    by (simp add: store_current_def IsActive_def IsMaster_def)
  ultimately show ?thesis by (intro exI [of _ "s\<lparr>fs_sys := ?y\<rparr>"]) (simp add: same_point_def)
qed

lemma finish_probe: "\<exists>t. other_step\<^sup>*\<^sup>* s t \<and> sy_probe (fs_sys t) = PIdle \<and> same_point s t"
proof (cases "sy_probe (fs_sys s)")
  case PIdle
  then show ?thesis using same_point_refl by blast
next
  case (PMasterStored role)
  then obtain t oldRole where t: "other_step s t" "sy_probe (fs_sys t) = PCurrentStored oldRole role" "same_point s t"
    using finish_current by blast
  obtain u where "other_step t u" "sy_probe (fs_sys u) = PIdle" "same_point t u"
    using finish_publish [OF t(2)] by blast
  with t show ?thesis
    by (intro exI [of _ u]) (auto intro: same_point_trans converse_rtranclp_into_rtranclp)
next
  case (PCurrentStored oldRole role)
  with finish_publish show ?thesis by (meson r_into_rtranclp)
qed

lemma others_reachable: "other_step\<^sup>*\<^sup>* s s' \<Longrightarrow> fsys_inv s \<Longrightarrow> fsys_inv s'"
  by (induction rule: rtranclp_induct) (auto intro: other_step_inv)

text \<open>The watcher's steps once its channel holds a signal or it is past the receive.\<close>

lemma watcher_closes:
  assumes "fs_watch s = Checking ch \<or> fs_watch s = Listening ch \<and> signalled (sy_checker (fs_sys s)) ch"
    and "\<not> gate_open s"
  shows "\<exists>s'. watch_step\<^sup>*\<^sup>* s s' \<and> \<not> fs_conn s' \<and> fs_client s' = fs_client s \<and> \<not> gate_open s'"
proof -
  have check: "\<exists>s'. watch_step t s' \<and> \<not> fs_conn s' \<and> fs_client s' = fs_client t \<and> \<not> gate_open s'"
    if "fs_watch t = Checking ch" "\<not> gate_open t" for t
    using watch_step.watch_inactive [OF that] that by force
  show ?thesis
  proof (cases "fs_watch s = Checking ch")
    case True
    with check [OF this assms(2)] show ?thesis by blast
  next
    case False
    let ?t = "on_checker (receive ch) s\<lparr>fs_watch := Checking ch\<rparr>"
    have "watch_step s ?t" using watch_step.watch_receive [of s ch] assms(1) False by blast
    moreover obtain s' where "watch_step ?t s'" "\<not> fs_conn s'" "fs_client s' = fs_client s" "\<not> gate_open s'"
      using check [of ?t] assms(2) by auto
    ultimately show ?thesis by (meson converse_rtranclp_into_rtranclp r_into_rtranclp)
  qed
qed

text \<open>A session that ends while the gate is inactive goes back to \<^verbatim>\<open>Wait\<close> without a pause.\<close>

lemma client_parks:
  assumes "fs_client s = CSession" "\<not> gate_open s"
  shows "\<exists>s'. client_step\<^sup>*\<^sup>* s s' \<and> fs_client s' = CWait \<and> sy_wait (fs_sys s') = WEnter"
proof -
  let ?s1 = "s\<lparr>fs_client := CFailed, fs_watch := WatchGone, fs_conn := False\<rparr>"
  let ?s2 = "?s1\<lparr>fs_client := CLoop\<rparr>"
  have "client_step s ?s1" using client_step.session_fails assms(1) by blast
  moreover have "client_step ?s1 ?s2" using client_step.failed_inactive [of ?s1] assms(2) by simp
  moreover have "client_step ?s2 (?s2\<lparr>fs_client := CWait, fs_sys := (fs_sys ?s2)\<lparr>sy_wait := WEnter\<rparr>\<rparr>)"
    using client_step.loop_inactive [of ?s2] assms(2) by simp
  ultimately have "client_step\<^sup>*\<^sup>* s (?s2\<lparr>fs_client := CWait, fs_sys := (fs_sys ?s2)\<lparr>sy_wait := WEnter\<rparr>\<rparr>)"
    by (meson converse_rtranclp_into_rtranclp r_into_rtranclp)
  then show ?thesis by (intro exI, intro conjI) (assumption, simp_all)
qed

text \<open>A client in \<^verbatim>\<open>Wait\<close> goes on by its own steps once the gate is open and the probe is over.\<close>

lemma wait_moves:
  assumes "fs_client s = CWait" "sys_step (fs_sys s) y" "sy_wait y \<noteq> sy_wait (fs_sys s)"
    and "\<exists>s'. client_step\<^sup>*\<^sup>* (s\<lparr>fs_sys := y\<rparr>) s' \<and> fs_client s' = CDial"
  shows "\<exists>s'. client_step\<^sup>*\<^sup>* s s' \<and> fs_client s' = CDial"
  using client_step.waiting [OF assms(1-3)] assms(4) by (meson converse_rtranclp_into_rtranclp)

lemma resume_returned:
  "fs_client s = CWait \<Longrightarrow> sy_wait (fs_sys s) = WReturned \<Longrightarrow> \<exists>s'. client_step\<^sup>*\<^sup>* s s' \<and> fs_client s' = CDial"
  using client_step.wait_returned [of s] by (intro exI [of _ "s\<lparr>fs_client := CDial\<rparr>"]) auto

lemma resume_check:
  assumes "fs_client s = CWait" "gate_open s" "sy_wait (fs_sys s) \<in> {WEnter, WCheck}"
  shows "\<exists>s'. client_step\<^sup>*\<^sup>* s s' \<and> fs_client s' = CDial"
proof (rule wait_moves [OF assms(1)])
  show "sys_step (fs_sys s) ((fs_sys s)\<lparr>sy_wait := WReturned\<rparr>)"
    using assms by (auto simp: IsActive_def intro: sys_step.intros)
qed (use assms in \<open>auto intro!: resume_returned\<close>)

lemma resume_recheck:
  assumes "fs_client s = CWait" "gate_open s" "sy_wait (fs_sys s) = WRecheck ch"
  shows "\<exists>s'. client_step\<^sup>*\<^sup>* s s' \<and> fs_client s' = CDial"
proof (rule wait_moves [OF assms(1)])
  show "sys_step (fs_sys s) ((fs_sys s)\<lparr>sy_checker := cancel ch (sy_checker (fs_sys s)), sy_wait := WReturned\<rparr>)"
    using assms by (auto simp: IsActive_def intro: sys_step.intros)
qed (use assms in \<open>auto intro!: resume_returned\<close>)

lemma resume_woken:
  assumes "fs_client s = CWait" "gate_open s" "sy_wait (fs_sys s) = WWoken ch"
  shows "\<exists>s'. client_step\<^sup>*\<^sup>* s s' \<and> fs_client s' = CDial"
proof (rule wait_moves [OF assms(1)])
  show "sys_step (fs_sys s) ((fs_sys s)\<lparr>sy_checker := cancel ch (sy_checker (fs_sys s)), sy_wait := WCheck\<rparr>)"
    using assms by (auto intro: sys_step.intros)
qed (use assms in \<open>auto intro!: resume_check\<close>)

lemma resume_select:
  assumes "fs_client s = CWait" "gate_open s" "sy_wait (fs_sys s) = WSelect ch" "signalled (sy_checker (fs_sys s)) ch"
  shows "\<exists>s'. client_step\<^sup>*\<^sup>* s s' \<and> fs_client s' = CDial"
proof (rule wait_moves [OF assms(1)])
  show "sys_step (fs_sys s) ((fs_sys s)\<lparr>sy_checker := receive ch (sy_checker (fs_sys s)), sy_wait := WWoken ch\<rparr>)"
    using assms by (auto intro: sys_step.intros)
qed (use assms in \<open>auto intro!: resume_woken\<close>)

lemma resume_subscribe:
  assumes "fs_client s = CWait" "gate_open s" "sy_wait (fs_sys s) = WSubscribe"
  shows "\<exists>s'. client_step\<^sup>*\<^sup>* s s' \<and> fs_client s' = CDial"
proof (rule wait_moves [OF assms(1)])
  let ?c = "sy_checker (fs_sys s)"
  show "sys_step (fs_sys s) ((fs_sys s)\<lparr>sy_checker := snd (subscribe ?c), sy_wait := WRecheck (fst (subscribe ?c))\<rparr>)"
    using assms by (auto intro: sys_step.wait_subscribe)
  show "\<exists>s'. client_step\<^sup>*\<^sup>* (s\<lparr>fs_sys := (fs_sys s)\<lparr>sy_checker := snd (subscribe ?c),
      sy_wait := WRecheck (fst (subscribe ?c))\<rparr>\<rparr>) s' \<and> fs_client s' = CDial"
    using assms by (intro resume_recheck) (simp_all add: IsActive_def IsMaster_def)
qed (use assms in simp_all)

section \<open>Properties\<close>

text \<open>
  C8: A MONITOR session does not outlive a demotion it has seen begin. In every reachable state in
  which a session that subscribed while the gate was active still has its connection, and the gate is
  now inactive, the watcher has been woken, or its channel holds a signal, or the probe in progress
  has still to send it; that probe ends, after which the watcher's own steps close the connection, and
  the client's own steps take it back into \<^verbatim>\<open>Wait\<close>, without a backoff.
\<close>

theorem session_closes_on_demotion:
  assumes "fsys_step\<^sup>*\<^sup>* (fsys_init opts m) s"
    and "fs_client s = CSession" and "fs_conn s" and "\<not> gate_open s" and "\<not> fs_late s" and "\<not> sy_done (fs_sys s)"
  shows "(\<exists>ch. fs_watch s = Checking ch \<or>
            fs_watch s = Listening ch \<and> (signalled (sy_checker (fs_sys s)) ch \<or> notice_due (fs_sys s))) \<and>
    (\<exists>t u v. other_step\<^sup>*\<^sup>* s t \<and> watch_step\<^sup>*\<^sup>* t u \<and> \<not> fs_conn u \<and> client_step\<^sup>*\<^sup>* u v \<and>
       fs_client v = CWait \<and> sy_wait (fs_sys v) = WEnter)"
proof
  have owed: "\<exists>ch. fs_watch t = Checking ch \<or>
      fs_watch t = Listening ch \<and> (signalled (sy_checker (fs_sys t)) ch \<or> notice_due (fs_sys t))"
    if "fsys_inv t" "fs_client t = CSession" "fs_conn t" "\<not> gate_open t" "\<not> fs_late t" "\<not> sy_done (fs_sys t)" for t
    using that by (auto simp: fsys_inv_defs)
  have inv: "fsys_inv s" by (rule fsys_reachable_inv [OF assms(1)])
  with owed assms show "\<exists>ch. fs_watch s = Checking ch \<or>
      fs_watch s = Listening ch \<and> (signalled (sy_checker (fs_sys s)) ch \<or> notice_due (fs_sys s))" by blast
  obtain t where t: "other_step\<^sup>*\<^sup>* s t" "sy_probe (fs_sys t) = PIdle" "same_point s t"
    using finish_probe by blast
  have "fsys_inv t" by (rule others_reachable [OF t(1) inv])
  with owed [of t] t assms obtain ch where
    "fs_watch t = Checking ch \<or> fs_watch t = Listening ch \<and> signalled (sy_checker (fs_sys t)) ch"
    by (auto simp: same_point_def notice_due_def)
  moreover have "\<not> gate_open t" "fs_client t = CSession" using t(3) assms by (simp_all add: same_point_def)
  ultimately obtain u where "watch_step\<^sup>*\<^sup>* t u" "\<not> fs_conn u" "fs_client u = CSession" "\<not> gate_open u"
    using watcher_closes by metis
  with t(1) client_parks [of u] show "\<exists>t u v. other_step\<^sup>*\<^sup>* s t \<and> watch_step\<^sup>*\<^sup>* t u \<and> \<not> fs_conn u \<and>
      client_step\<^sup>*\<^sup>* u v \<and> fs_client v = CWait \<and> sy_wait (fs_sys v) = WEnter" by blast
qed


text \<open>Whole probes, on the executions of the witnesses.\<close>

lemma whole_probe:
  assumes "sy_probe (fs_sys s) = PIdle" "fs_watch s = WatchGone"
  shows "fsys_step\<^sup>*\<^sup>* s (on_checker (\<lambda>c. fst (publish (ck_current c) role (store_current role (store_master role c)))) s)"
proof -
  let ?c = "sy_checker (fs_sys s)"
  let ?y1 = "(fs_sys s)\<lparr>sy_checker := store_master role ?c, sy_probe := PMasterStored role\<rparr>"
  let ?y2 = "(fs_sys s)\<lparr>sy_checker := store_current role (store_master role ?c),
      sy_probe := PCurrentStored (ck_current ?c) role\<rparr>"
  let ?y3 = "(fs_sys s)\<lparr>sy_checker := fst (publish (ck_current ?c) role (store_current role (store_master role ?c)))\<rparr>"
  have "sys_step (fs_sys s) ?y1" using sys_step.probe_master [of "fs_sys s" role] assms by simp
  moreover have "sys_step ?y1 ?y2" using sys_step.probe_current [of ?y1 role] by (simp add: store_master_def)
  moreover have "sys_step ?y2 ?y3"
    using sys_step.probe_publish [of ?y2 "ck_current ?c" role] assms by (cases "fs_sys s") simp
  ultimately have "other_step s (s\<lparr>fs_sys := ?y1\<rparr>)" "other_step (s\<lparr>fs_sys := ?y1\<rparr>) (s\<lparr>fs_sys := ?y2\<rparr>)"
    "other_step (s\<lparr>fs_sys := ?y2\<rparr>) (s\<lparr>fs_sys := ?y3\<rparr>)"
    using other_step.others [of s ?y1] other_step.others [of "s\<lparr>fs_sys := ?y1\<rparr>" ?y2]
      other_step.others [of "s\<lparr>fs_sys := ?y2\<rparr>" ?y3] assms(2)
    by (simp_all add: spares_def)
  then show ?thesis by (meson converse_rtranclp_into_rtranclp fsys_stepI(3) r_into_rtranclp)
qed

definition probe_reads :: "string \<Rightarrow> Checker \<Rightarrow> Checker" where
  "probe_reads role c = fst (publish (ck_current c) role (store_current role (store_master role c)))"

text \<open>The state once a first probe has read that the server is a master, and the client is dialling.\<close>

definition dialling :: fsys where
  "dialling = (on_checker (probe_reads RoleMaster) (fsys_init sample_role_opts False))\<lparr>fs_client := CDial\<rparr>"

lemmas sample_defs = dialling_def probe_reads_def fsys_init_def sys_init_def New_Checker_def sample_role_opts_def
  store_master_def store_current_def publish_def notify_def IsActive_def IsMaster_def

lemma dialling_reached: "fsys_step\<^sup>*\<^sup>* (fsys_init sample_role_opts False) dialling"
proof -
  let ?f0 = "fsys_init sample_role_opts False"
  have "fsys_step\<^sup>*\<^sup>* ?f0 (on_checker (probe_reads RoleMaster) ?f0)"
    using whole_probe [of ?f0 RoleMaster] by (simp add: probe_reads_def fsys_init_def sys_init_def)
  moreover have "client_step (on_checker (probe_reads RoleMaster) ?f0) dialling"
    unfolding dialling_def by (rule client_step.loop_active) (simp_all add: sample_defs)
  ultimately show ?thesis by (meson fsys_stepI(1) rtranclp.rtrancl_into_rtrancl)
qed

text \<open>The dial succeeds and the session subscribes, from any state of the checker.\<close>

definition session_of :: "fsys \<Rightarrow> fsys" where
  "session_of s = s\<lparr>fs_conn := True, fs_client := CSession, fs_watch := Listening (fst (subscribe (sy_checker (fs_sys s)))),
     fs_late := \<not> gate_open s, fs_sys := (fs_sys s)\<lparr>sy_checker := snd (subscribe (sy_checker (fs_sys s)))\<rparr>\<rparr>"

lemma session_reached:
  assumes "fs_client s = CDial"
  shows "fsys_step\<^sup>*\<^sup>* s (session_of s)"
proof -
  let ?t = "s\<lparr>fs_client := CSubscribe, fs_conn := True\<rparr>"
  have "client_step s ?t" by (rule client_step.dial_ok [OF assms])
  moreover have "client_step ?t (session_of s)"
    using client_step.session_subscribe [of ?t "fst (subscribe (sy_checker (fs_sys s)))" "snd (subscribe (sy_checker (fs_sys s)))"]
    by (simp add: session_of_def)
  ultimately show ?thesis by (meson converse_rtranclp_into_rtranclp fsys_stepI(1) r_into_rtranclp)
qed

definition demoting :: "fsys \<Rightarrow> fsys" where
  "demoting s = s\<lparr>fs_sys := (fs_sys s)\<lparr>sy_checker := store_master RoleReplica (sy_checker (fs_sys s)),
     sy_probe := PMasterStored RoleReplica\<rparr>\<rparr>"

lemma demoting_reached:
  assumes "sy_probe (fs_sys s) = PIdle"
  shows "fsys_step s (demoting s)"
proof -
  have "other_step s (demoting s)"
    unfolding demoting_def
    by (rule other_step.others) (auto simp: assms spares_def intro: sys_step.probe_master split: option.split)
  then show ?thesis by blast
qed

theorem session_closes_on_demotion_witness:
  "\<exists>s u v. fs_client s = CSession \<and> fs_conn s \<and> \<not> gate_open s \<and> watch_step\<^sup>*\<^sup>* u v \<and> \<not> fs_conn v"
proof -
  let ?s = "demoting (session_of dialling)"
  have "fsys_step\<^sup>*\<^sup>* dialling (session_of dialling)" by (rule session_reached) (simp add: dialling_def)
  moreover have "fsys_step (session_of dialling) ?s"
    by (rule demoting_reached) (simp add: session_of_def sample_defs)
  ultimately have reach: "fsys_step\<^sup>*\<^sup>* (fsys_init sample_role_opts False) ?s"
    using dialling_reached by (meson rtranclp.rtrancl_into_rtrancl rtranclp_trans)
  have at: "fs_client ?s = CSession" "fs_conn ?s" "\<not> gate_open ?s" "\<not> fs_late ?s" "\<not> sy_done (fs_sys ?s)"
    by (simp_all add: demoting_def session_of_def sample_defs subscribe_def)
  from session_closes_on_demotion [OF reach at] at show ?thesis by blast
qed


text \<open>
  An open session on a server that is no longer a master, whose watcher has nothing to wake it.
\<close>

definition unnoticed :: "fsys \<Rightarrow> bool" where
  "unnoticed s \<longleftrightarrow> fs_client s = CSession \<and> fs_conn s \<and> \<not> gate_open s \<and> \<not> notice_due (fs_sys s) \<and>
     \<not> sy_done (fs_sys s) \<and> (\<exists>ch. fs_watch s = Listening ch \<and> \<not> signalled (sy_checker (fs_sys s)) ch)"

text \<open>Only a notification signals a channel, and only a probe that reads another role is due to send one.\<close>

lemma silent_step:
  assumes "sys_step y y'" "sys_inv y" "\<not> notice_due y" "\<not> signalled (sy_checker y) ch"
  shows "\<not> signalled (sy_checker y') ch"
  using assms(1)
proof (cases rule: sys_step.cases)
  case (wait_subscribe ch' c')
  then have "sy_checker y' = snd (subscribe (sy_checker y))" by simp
  with assms(4) show ?thesis by simp
next
  case (probe_publish oldRole role)
  with assms(3,4) show ?thesis by (simp add: publish_def notice_due_def)
qed (use assms(4) sys_inv_waiters [OF assms(2)] in simp_all)

lemma inactive_step:
  assumes "sys_step y y'" "sys_inv y" "\<not> notice_due y'" "\<not> IsActive (sy_checker y)"
  shows "\<not> IsActive (sy_checker y')"
proof (cases "sy_probe y' = sy_probe y")
  case True
  with quiet_step [OF assms(1)] assms(4) show ?thesis by simp
next
  case False
  have off: "\<not> ro_AllowReplica (ck_opts (sy_checker y))" "\<not> ck_isMaster (sy_checker y)"
    using assms(4) by (simp_all add: IsActive_def IsMaster_def split: if_splits)
  from assms(1) False show ?thesis
  proof (cases rule: probe_moves)
    case (1 role)
    with assms(3) have "ck_current (sy_checker y) = role" by (simp add: notice_due_def store_master_def)
    with 1 assms(2) off have "role \<noteq> RoleMaster" by (auto simp: sys_inv_def probe_ok_def role_ok_def)
    with 1 off show ?thesis by (simp add: store_master_def IsActive_def IsMaster_def)
  next
    case (2 role)
    with off show ?thesis by (simp add: store_current_def IsActive_def IsMaster_def)
  next
    case (3 oldRole role)
    with off show ?thesis by (simp add: publish_def Let_def notify_def IsActive_def IsMaster_def)
  qed
qed

lemma unnoticed_step:
  assumes "fsys_inv s" "unnoticed s" "fsys_step s s'"
  shows "unnoticed s' \<or> fs_client s' \<noteq> CSession \<or> sy_done (fs_sys s') \<or> notice_due (fs_sys s')"
proof -
  consider "client_step s s'" | "watch_step s s'" | "other_step s s'" using assms(3) by (auto simp: fsys_step_def)
  then show ?thesis
  proof cases
    case 1
    then show ?thesis using assms(2) by (cases rule: client_step.cases) (auto simp: unnoticed_def)
  next
    case 2
    then show ?thesis using assms(2) by (cases rule: watch_step.cases) (auto simp: unnoticed_def)
  next
    case 3
    then show ?thesis
    proof (cases rule: other_step.cases)
      case (others y)
      have inv: "sys_inv (fs_sys s)" using assms(1) by (simp add: fsys_inv_def)
      show ?thesis
        using assms(2) others silent_step [OF others(2) inv] inactive_step [OF others(2) inv]
        by (auto simp: unnoticed_def)
    qed
  qed
qed

text \<open>
  C15: A demotion while the client is dialling goes unnoticed. There is an execution that ends in an
  open MONITOR session on a server the checker knows to be a replica, with no signal in the watcher's
  channel and none due; and whatever happens next, it stays so until the session ends by itself, the
  program stops, or a probe reads yet another role.
\<close>

theorem demotion_during_dial:
  "(\<exists>s. fsys_step\<^sup>*\<^sup>* (fsys_init sample_role_opts False) s \<and> ck_current (sy_checker (fs_sys s)) = RoleReplica \<and> unnoticed s) \<and>
   (\<forall>opts m s s'. fsys_step\<^sup>*\<^sup>* (fsys_init opts m) s \<longrightarrow> unnoticed s \<longrightarrow> fsys_step s s' \<longrightarrow>
      unnoticed s' \<or> fs_client s' \<noteq> CSession \<or> sy_done (fs_sys s') \<or> notice_due (fs_sys s'))"
proof (intro conjI allI impI)
  let ?d = "on_checker (probe_reads RoleReplica) dialling"
  have "fsys_step\<^sup>*\<^sup>* dialling ?d"
    using whole_probe [of dialling RoleReplica] by (simp add: probe_reads_def dialling_def fsys_init_def sys_init_def)
  moreover have "fsys_step\<^sup>*\<^sup>* ?d (session_of ?d)" by (rule session_reached) (simp add: dialling_def)
  ultimately have "fsys_step\<^sup>*\<^sup>* (fsys_init sample_role_opts False) (session_of ?d)"
    using dialling_reached by (meson rtranclp_trans)
  moreover have "\<not> signalled (snd (subscribe (sy_checker (fs_sys ?d)))) (fst (subscribe (sy_checker (fs_sys ?d))))"
    by (rule role_gate.subscribe_silent) (simp add: sample_defs role_ok_def waiters_ok_def)
  then have "unnoticed (session_of ?d)" "ck_current (sy_checker (fs_sys (session_of ?d))) = RoleReplica"
    using role_gate.subscribe_active [of "sy_checker (fs_sys ?d)"]
    by (simp_all add: unnoticed_def session_of_def notice_due_def) (simp_all add: sample_defs)
  ultimately show "\<exists>s. fsys_step\<^sup>*\<^sup>* (fsys_init sample_role_opts False) s \<and>
      ck_current (sy_checker (fs_sys s)) = RoleReplica \<and> unnoticed s" by blast
next
  fix opts m s s'
  assume "fsys_step\<^sup>*\<^sup>* (fsys_init opts m) s" "unnoticed s" "fsys_step s s'"
  then show "unnoticed s' \<or> fs_client s' \<noteq> CSession \<or> sy_done (fs_sys s') \<or> notice_due (fs_sys s')"
    using unnoticed_step fsys_reachable_inv by blast
qed

theorem demotion_during_dial_witness:
  "\<exists>s. unnoticed s \<and> fsys_step s (on_checker (snd \<circ> subscribe) s) \<and> unnoticed (on_checker (snd \<circ> subscribe) s)"
proof -
  obtain s where s: "fsys_step\<^sup>*\<^sup>* (fsys_init sample_role_opts False) s" "unnoticed s"
    using demotion_during_dial by blast
  let ?s = "on_checker (snd \<circ> subscribe) s"
  have step: "fsys_step s ?s"
    by (intro fsys_stepI(3) other_step.others) (auto simp: spares_def intro: sys_step.other_subscribes split: option.split)
  have "fs_client ?s = CSession" "\<not> sy_done (fs_sys ?s)" "\<not> notice_due (fs_sys ?s)"
    using s(2) by (simp_all add: unnoticed_def notice_due_def split: probe_pc.splits)
  with demotion_during_dial s step have "unnoticed ?s" by blast
  with s step show ?thesis by blast
qed

end
