(* ===== verification/Trace.thy ===== *)
theory Trace
  imports Alert Role Support "HOL-Library.State_Monad"
begin

text \<open>
  Tracing: the span functions of \<^verbatim>\<open>internal/sentryx/sentryx.go\<close> and the spans that the alert
  engine and the role checker open with them. A span is an object of the Sentry SDK; here it is a
  number, and the tracer keeps the log of what was done to the spans, in order. A context is the
  span it carries, if any. Whether the SDK samples a span is not visible to this code.
\<close>

section \<open>Spans\<close>

datatype span_status = SpanStatusOK | SpanStatusInternalError

datatype span_event =
    SpanStart nat "nat option" string string
  | SpanTag nat string string
  | SpanData nat string string
  | SpanFinish nat span_status

record tracer =
  tr_next :: nat
  tr_log :: "span_event list"

definition log_event :: "span_event \<Rightarrow> (tracer, unit) state" where
  "log_event e = State_Monad.update (\<lambda>t. t\<lparr>tr_log := tr_log t @ [e]\<rparr>)"

text \<open>
  \<^verbatim>\<open>StartSpan\<close>: a child of the context's span, or the root of a transaction that has the
  description for its name. The callback it returns is \<open>FinishSpan\<close> on the new span, and the context
  it returns is the one that carries it.
\<close>

definition StartSpan :: "nat option \<Rightarrow> string \<Rightarrow> string \<Rightarrow> (tracer, nat) state" where
  "StartSpan ctx operation description = do {
     t \<leftarrow> State_Monad.get;
     State_Monad.set (t\<lparr>tr_next := Suc (tr_next t)\<rparr>);
     log_event (SpanStart (tr_next t) ctx operation description);
     State_Monad.return (tr_next t)
   }"

definition FinishSpan :: "nat \<Rightarrow> string option \<Rightarrow> (tracer, unit) state" where
  "FinishSpan sp err = (case err of
      Some msg \<Rightarrow> do {
        log_event (SpanData sp ''error'' msg);
        log_event (SpanFinish sp SpanStatusInternalError)
      }
    | None \<Rightarrow> log_event (SpanFinish sp SpanStatusOK))"

definition SetSpanData :: "nat option \<Rightarrow> string \<Rightarrow> string \<Rightarrow> (tracer, unit) state" where
  "SetSpanData ctx key v = (case ctx of None \<Rightarrow> State_Monad.return () | Some sp \<Rightarrow> log_event (SpanData sp key v))"

definition SetSpanTag :: "nat option \<Rightarrow> string \<Rightarrow> string \<Rightarrow> (tracer, unit) state" where
  "SetSpanTag ctx key v = (case ctx of None \<Rightarrow> State_Monad.return () | Some sp \<Rightarrow> log_event (SpanTag sp key v))"

text \<open>
  \<^verbatim>\<open>Recover\<close>, deferred: what it does with the value of a panic, if there is one, and the panic
  that goes on after it.
\<close>

datatype hub_call = HubRecover string | HubFlush int

definition Recover :: "bool \<Rightarrow> string option \<Rightarrow> hub_call list \<times> string option" where
  "Recover hub r = (case r of
      None \<Rightarrow> ([], None)
    | Some v \<Rightarrow> ((if hub then [HubRecover v, HubFlush (2 * Second)] else []), Some v))"

section \<open>The spans of the program\<close>

text \<open>
  The text of an error, \<^verbatim>\<open>err.Error()\<close>, is the parameter \<open>msg\<close>. The span of
  \<^verbatim>\<open>probeOnce\<close> covers the query.
\<close>

definition probeOnce_traced ::
  "(role_error \<Rightarrow> string) \<Rightarrow> nat option \<Rightarrow> probe_env \<Rightarrow> Checker \<Rightarrow> (tracer, role_error + string) state" where
  "probeOnce_traced msg ctx env c = do {
     sp \<leftarrow> StartSpan ctx ''db.redis.info'' ''role.probe'';
     SetSpanData (Some sp) ''redis_address'' (ro_Address (ck_opts c));
     SetSpanData (Some sp) ''redis_network'' (ro_Network (ck_opts c));
     let res = queryRole env (ck_opts c);
     FinishSpan sp (case res of Inl e \<Rightarrow> Some (msg e) | Inr _ \<Rightarrow> None);
     State_Monad.return res
   }"

definition sendOne_traced ::
  "(send_error \<Rightarrow> string) \<Rightarrow> nat option \<Rightarrow> Engine \<Rightarrow> Channel \<Rightarrow> Alert \<Rightarrow> Event \<Rightarrow> (int \<Rightarrow> send_env) \<Rightarrow>
     (tracer, send_error option) state" where
  "sendOne_traced msg ctx e ch a ev env = do {
     sp \<leftarrow> StartSpan ctx ''http.client'' (''alert.send.'' @ Channel_Name ch);
     SetSpanTag (Some sp) ''channel'' (Channel_Name ch);
     SetSpanTag (Some sp) ''command'' (ev_Command ev);
     let (n, lastErr, es) = send_loop e ch a ev env 1 (en_retryInitialBackoff e);
     SetSpanData (Some sp) ''attempts'' (Itoa n);
     FinishSpan sp (map_option msg lastErr);
     State_Monad.return lastErr
   }"

fun dispatch_traced ::
  "(send_error \<Rightarrow> string) \<Rightarrow> nat \<Rightarrow> Engine \<Rightarrow> Alert \<Rightarrow> Event \<Rightarrow> (nat \<Rightarrow> int \<Rightarrow> send_env) \<Rightarrow> nat \<Rightarrow>
     send_error option \<Rightarrow> Channel list \<Rightarrow> (tracer, send_error option) state" where
  "dispatch_traced msg tx e a ev env i dispatchErr [] = State_Monad.return dispatchErr"
| "dispatch_traced msg tx e a ev env i dispatchErr (ch # chs) = do {
     err \<leftarrow> sendOne_traced msg (Some tx) e ch a ev (env i);
     dispatch_traced msg tx e a ev env (Suc i) (if err \<noteq> None \<and> dispatchErr = None then err else dispatchErr) chs
   }"

text \<open>The transaction of \<^verbatim>\<open>handle\<close>, on the branch that dispatches an alert.\<close>

definition alert_traced ::
  "(send_error \<Rightarrow> string) \<Rightarrow> nat option \<Rightarrow> Engine \<Rightarrow> Alert \<Rightarrow> Event \<Rightarrow> (nat \<Rightarrow> int \<Rightarrow> send_env) \<Rightarrow> (tracer, unit) state" where
  "alert_traced msg ctx e a ev env = do {
     tx \<leftarrow> StartSpan ctx ''task.alert'' ''alert.dispatch'';
     SetSpanTag (Some tx) ''command'' (ev_Command ev);
     SetSpanData (Some tx) ''source_ip'' (src_IP (ev_Source ev));
     SetSpanData (Some tx) ''db'' (Itoa (ev_DB ev));
     dispatchErr \<leftarrow> dispatch_traced msg tx e a ev env 0 None (en_channels e);
     FinishSpan tx (map_option msg dispatchErr)
   }"

definition handle_traced ::
  "(send_error \<Rightarrow> string) \<Rightarrow> nat option \<Rightarrow> regexp_engine \<Rightarrow> int \<Rightarrow> (nat \<Rightarrow> int \<Rightarrow> send_env) \<Rightarrow> Event \<Rightarrow> Engine \<Rightarrow>
     (tracer, unit) state" where
  "handle_traced msg ctx rx now env ev e =
     (case match_rule rx e ev of
        None \<Rightarrow> State_Monad.return ()
      | Some reason \<Rightarrow>
          if src_IP (ev_Source ev) \<in> en_ignoredIPs e then State_Monad.return ()
          else
            let (allowed, e1) = rateLimitAllow now ev e in
            if \<not> allowed then State_Monad.return ()
            else
              let a = \<lparr>al_Timestamp = ev_Timestamp ev, al_Command = FullCommand ev,
                       al_Source = src_IP (ev_Source ev) @ '':'' @ src_Port (ev_Source ev),
                       al_DB = ev_DB ev, al_Reason = reason, al_Event = ev\<rparr>
              in alert_traced msg ctx e1 a ev env)"

section \<open>Nesting\<close>

text \<open>
  A log is well nested from a stack of open spans when every span is started under the innermost open
  one, only the innermost open span is annotated or finished, and it is finished once.
\<close>

fun nesting :: "nat list \<Rightarrow> span_event list \<Rightarrow> nat list option" where
  "nesting st [] = Some st"
| "nesting st (SpanStart i p operation d # l) =
     (if p = (case st of [] \<Rightarrow> None | j # _ \<Rightarrow> Some j) then nesting (i # st) l else None)"
| "nesting st (SpanTag i k v # l) = (case st of [] \<Rightarrow> None | j # _ \<Rightarrow> if i = j then nesting st l else None)"
| "nesting st (SpanData i k v # l) = (case st of [] \<Rightarrow> None | j # _ \<Rightarrow> if i = j then nesting st l else None)"
| "nesting st (SpanFinish i s # l) = (case st of [] \<Rightarrow> None | j # st' \<Rightarrow> if i = j then nesting st' l else None)"

fun starts :: "span_event list \<Rightarrow> (nat \<times> nat option \<times> string) list" where
  "starts [] = []"
| "starts (SpanStart i p operation d # l) = (i, p, d) # starts l"
| "starts (e # l) = starts l"

fun finishes :: "span_event list \<Rightarrow> (nat \<times> span_status) list" where
  "finishes [] = []"
| "finishes (SpanFinish i s # l) = (i, s) # finishes l"
| "finishes (e # l) = finishes l"

lemma nesting_append: "nesting st (a @ b) = Option.bind (nesting st a) (\<lambda>st'. nesting st' b)"
  by (induction st a rule: nesting.induct) (auto split: list.splits)

lemma starts_append [simp]: "starts (a @ b) = starts a @ starts b"
  by (induction a rule: starts.induct) simp_all

lemma finishes_append [simp]: "finishes (a @ b) = finishes a @ finishes b"
  by (induction a rule: finishes.induct) simp_all

lemma log_event_run [simp]: "run_state (log_event e) t = ((), t\<lparr>tr_log := tr_log t @ [e]\<rparr>)"
  by (simp add: log_event_def State_Monad.update_def)

definition status_of :: "'e option \<Rightarrow> span_status" where
  "status_of err = (case err of None \<Rightarrow> SpanStatusOK | Some _ \<Rightarrow> SpanStatusInternalError)"

definition finish_log :: "nat \<Rightarrow> string option \<Rightarrow> span_event list" where
  "finish_log sp err = (case err of None \<Rightarrow> [] | Some m \<Rightarrow> [SpanData sp ''error'' m]) @ [SpanFinish sp (status_of err)]"

lemma span_ops_run [simp]:
  "run_state (StartSpan ctx operation d) t =
     (tr_next t, t\<lparr>tr_next := Suc (tr_next t), tr_log := tr_log t @ [SpanStart (tr_next t) ctx operation d]\<rparr>)"
  "run_state (SetSpanTag (Some sp) k v) t = ((), t\<lparr>tr_log := tr_log t @ [SpanTag sp k v]\<rparr>)"
  "run_state (SetSpanData (Some sp) k v) t = ((), t\<lparr>tr_log := tr_log t @ [SpanData sp k v]\<rparr>)"
  "run_state (FinishSpan sp err) t = ((), t\<lparr>tr_log := tr_log t @ finish_log sp err\<rparr>)"
  by (simp_all add: StartSpan_def SetSpanTag_def SetSpanData_def FinishSpan_def finish_log_def status_of_def split: option.split)

lemma finish_log_facts [simp]:
  "nesting (sp # st) (finish_log sp err) = Some st" "starts (finish_log sp err) = []"
  "finishes (finish_log sp err) = [(sp, status_of err)]"
  by (simp_all add: finish_log_def split: option.split)

lemma status_of_map [simp]: "status_of (map_option f err) = status_of err"
  by (simp add: status_of_def option.case_eq_if)

section \<open>The spans of a dispatch\<close>

lemma sendOne_result: "fst (sendOne e ch a ev env) = fst (snd (send_loop e ch a ev env 1 (en_retryInitialBackoff e)))"
  by (simp add: sendOne_def split: prod.split option.split)

text \<open>What the channels answered, in order.\<close>

fun outcomes :: "Engine \<Rightarrow> Alert \<Rightarrow> Event \<Rightarrow> (nat \<Rightarrow> int \<Rightarrow> send_env) \<Rightarrow> nat \<Rightarrow> Channel list \<Rightarrow> send_error option list" where
  "outcomes e a ev env i [] = []"
| "outcomes e a ev env i (ch # chs) = fst (sendOne e ch a ev (env i)) # outcomes e a ev env (Suc i) chs"

definition first_error :: "'e option list \<Rightarrow> 'e option" where
  "first_error xs = Option.bind (find (\<lambda>x. x \<noteq> None) xs) id"

lemma length_outcomes [simp]: "length (outcomes e a ev env i chs) = length chs"
  by (induction chs arbitrary: i) simp_all

lemma status_of_first:
  "status_of (first_error xs) = (if \<forall>x\<in>set xs. x = None then SpanStatusOK else SpanStatusInternalError)"
  by (induction xs) (auto simp: first_error_def status_of_def split: option.splits)

lemma sendOne_traced_run:
  assumes "run_state (sendOne_traced msg ctx e ch a ev env) t = (err, t')"
  shows "err = fst (sendOne e ch a ev env) \<and> tr_next t' = Suc (tr_next t) \<and>
    (\<exists>l. tr_log t' = tr_log t @ l \<and>
      starts l = [(tr_next t, ctx, ''alert.send.'' @ Channel_Name ch)] \<and>
      finishes l = [(tr_next t, status_of err)] \<and>
      (ctx = (case st of [] \<Rightarrow> None | j # _ \<Rightarrow> Some j) \<longrightarrow> nesting st l = Some st))"
proof -
  obtain n res es where r: "send_loop e ch a ev env 1 (en_retryInitialBackoff e) = (n, res, es)"
    by (metis prod_cases3)
  let ?l = "[SpanStart (tr_next t) ctx ''http.client'' (''alert.send.'' @ Channel_Name ch),
      SpanTag (tr_next t) ''channel'' (Channel_Name ch), SpanTag (tr_next t) ''command'' (ev_Command ev),
      SpanData (tr_next t) ''attempts'' (Itoa n)] @ finish_log (tr_next t) (map_option msg res)"
  have "err = res" "t' = t\<lparr>tr_next := Suc (tr_next t), tr_log := tr_log t @ ?l\<rparr>"
    using assms r by (auto simp: sendOne_traced_def)
  then show ?thesis
    using r by (intro conjI exI [of _ ?l]) (simp_all add: sendOne_result nesting_append)
qed

lemma dispatch_traced_run:
  assumes "run_state (dispatch_traced msg tx e a ev env i d chs) t = (d', t')"
  shows "d' = (if d = None then first_error (outcomes e a ev env i chs) else d) \<and>
    (\<exists>l. tr_log t' = tr_log t @ l \<and> nesting (tx # st) l = Some (tx # st) \<and>
      starts l = map2 (\<lambda>k ch. (k, Some tx, ''alert.send.'' @ Channel_Name ch))
        [tr_next t..<tr_next t + length chs] chs \<and>
      finishes l = zip [tr_next t..<tr_next t + length chs] (map status_of (outcomes e a ev env i chs)))"
  using assms
proof (induction chs arbitrary: i d t)
  case Nil
  then show ?case by (simp add: first_error_def)
next
  case (Cons ch chs)
  obtain err u where one: "run_state (sendOne_traced msg (Some tx) e ch a ev (env i)) t = (err, u)"
    by (meson surj_pair)
  from sendOne_traced_run [OF one, of "tx # st"] obtain l1 where
    l1: "err = fst (sendOne e ch a ev (env i))" "tr_next u = Suc (tr_next t)" "tr_log u = tr_log t @ l1"
      "starts l1 = [(tr_next t, Some tx, ''alert.send.'' @ Channel_Name ch)]"
      "finishes l1 = [(tr_next t, status_of err)]" "nesting (tx # st) l1 = Some (tx # st)" by auto
  let ?d = "if err \<noteq> None \<and> d = None then err else d"
  have "run_state (dispatch_traced msg tx e a ev env (Suc i) ?d chs) u = (d', t')"
    using Cons.prems one by simp
  from Cons.IH [OF this] obtain l2 where
    l2: "d' = (if ?d = None then first_error (outcomes e a ev env (Suc i) chs) else ?d)"
      "tr_log t' = tr_log u @ l2" "nesting (tx # st) l2 = Some (tx # st)"
      "starts l2 = map2 (\<lambda>k ch. (k, Some tx, ''alert.send.'' @ Channel_Name ch))
        [tr_next u..<tr_next u + length chs] chs"
      "finishes l2 = zip [tr_next u..<tr_next u + length chs] (map status_of (outcomes e a ev env (Suc i) chs))"
    by blast
  have upt: "[tr_next t..<tr_next t + length (ch # chs)] = tr_next t # [tr_next u..<tr_next u + length chs]"
    using l1(2) upt_conv_Cons [of "tr_next t" "tr_next t + length (ch # chs)"] by (simp del: upt_Suc)
  show ?case
    unfolding upt using l1 l2
    by (intro conjI exI [of _ "l1 @ l2"]) (auto simp: nesting_append first_error_def)
qed

section \<open>Properties\<close>

text \<open>The condition under which \<^verbatim>\<open>handle\<close> dispatches an alert.\<close>

definition dispatches :: "regexp_engine \<Rightarrow> int \<Rightarrow> Event \<Rightarrow> Engine \<Rightarrow> bool" where
  "dispatches rx now ev e \<longleftrightarrow> match_rule rx e ev \<noteq> None \<and> src_IP (ev_Source ev) \<notin> en_ignoredIPs e \<and>
     fst (rateLimitAllow now ev e)"

lemma handle_sends:
  assumes "1 \<le> en_retryMax e" "en_channels e \<noteq> []"
  shows "sends (snd (handle rx now env ev e)) \<noteq> [] \<longleftrightarrow> dispatches rx now ev e"
proof -
  obtain ok e1 where r: "rateLimitAllow now ev e = (ok, e1)" by (meson surj_pair)
  note frame = rateLimitAllow_frame [OF r]
  have ch: "1 \<le> en_retryMax e1" "en_channels e1 \<noteq> []" using frame assms by auto
  have ne: "sends (dispatch_channels e1 a ev env 0 (en_channels e1)) \<noteq> []" for a
  proof -
    obtain ns where ns: "length ns = length (en_channels e1)" "\<forall>n\<in>set ns. 1 \<le> n \<and> n \<le> nat (en_retryMax e1)"
      "sends (dispatch_channels e1 a ev env 0 (en_channels e1)) =
        concat (map2 (\<lambda>ch n. replicate n (Channel_Name ch, ev)) (en_channels e1) ns)"
      using sends_dispatch [OF ch(1), of "en_channels e1" a ev env 0] by blast
    with ch(2) show ?thesis by (cases "en_channels e1"; cases ns) auto
  qed
  with r show ?thesis
    by (auto simp: handle_def dispatches_def Let_def split: option.splits)
qed

lemma alert_traced_run:
  assumes "run_state (alert_traced msg ctx e a ev env) t = ((), t')"
    and "ctx = (case st of [] \<Rightarrow> None | j # _ \<Rightarrow> Some j)"
  shows "\<exists>l. tr_log t' = tr_log t @ l \<and> nesting st l = Some st \<and> l \<noteq> [] \<and>
    starts l = (tr_next t, ctx, ''alert.dispatch'') #
      map2 (\<lambda>k ch. (k, Some (tr_next t), ''alert.send.'' @ Channel_Name ch))
        [Suc (tr_next t)..<Suc (tr_next t) + length (en_channels e)] (en_channels e) \<and>
    finishes l = zip [Suc (tr_next t)..<Suc (tr_next t) + length (en_channels e)]
        (map status_of (outcomes e a ev env 0 (en_channels e))) @
      [(tr_next t, status_of (first_error (outcomes e a ev env 0 (en_channels e))))]"
proof -
  let ?open = "[SpanStart (tr_next t) ctx ''task.alert'' ''alert.dispatch'', SpanTag (tr_next t) ''command'' (ev_Command ev),
      SpanData (tr_next t) ''source_ip'' (src_IP (ev_Source ev)), SpanData (tr_next t) ''db'' (Itoa (ev_DB ev))]"
  let ?t1 = "t\<lparr>tr_next := Suc (tr_next t), tr_log := tr_log t @ ?open\<rparr>"
  obtain d t2 where d: "run_state (dispatch_traced msg (tr_next t) e a ev env 0 None (en_channels e)) ?t1 = (d, t2)"
    by (meson surj_pair)
  have t': "t' = t2\<lparr>tr_log := tr_log t2 @ finish_log (tr_next t) (map_option msg d)\<rparr>"
    using assms(1) d by (simp add: alert_traced_def)
  from dispatch_traced_run [OF d, of st] obtain l where
    l: "d = first_error (outcomes e a ev env 0 (en_channels e))" "tr_log t2 = tr_log ?t1 @ l"
      "nesting (tr_next t # st) l = Some (tr_next t # st)"
      "starts l = map2 (\<lambda>k ch. (k, Some (tr_next t), ''alert.send.'' @ Channel_Name ch))
        [tr_next ?t1..<tr_next ?t1 + length (en_channels e)] (en_channels e)"
      "finishes l = zip [tr_next ?t1..<tr_next ?t1 + length (en_channels e)]
        (map status_of (outcomes e a ev env 0 (en_channels e)))" by auto
  show ?thesis
    using t' l assms(2)
    by (intro exI [of _ "?open @ l @ finish_log (tr_next t) (map_option msg d)"])
      (simp add: nesting_append del: upt_Suc)
qed

text \<open>
  C30: The trace of an alert. An event for which no alert is dispatched leaves no span. Otherwise it
  leaves one transaction with one child span per channel, in the order of the channels; the log is
  well nested, so every span is finished exactly once and a child before its parent; the status of a
  child tells whether that channel accepted the alert, and the transaction is marked as failed
  exactly when some channel failed.
\<close>

theorem handle_spans:
  assumes "run_state (handle_traced msg None rx now env ev e) t = ((), t')"
    and "1 \<le> en_retryMax e" and "en_channels e \<noteq> []"
  shows "\<exists>l outs. tr_log t' = tr_log t @ l \<and> nesting [] l = Some [] \<and>
    (l \<noteq> [] \<longleftrightarrow> sends (snd (handle rx now env ev e)) \<noteq> []) \<and>
    (l \<noteq> [] \<longrightarrow>
       starts l = (tr_next t, None, ''alert.dispatch'') #
         map2 (\<lambda>k ch. (k, Some (tr_next t), ''alert.send.'' @ Channel_Name ch))
           [Suc (tr_next t)..<Suc (tr_next t) + length (en_channels e)] (en_channels e) \<and>
       (\<exists>e1 a. outs = outcomes e1 a ev env 0 (en_channels e) \<and>
          snd (handle rx now env ev e) =
            to_sink (en_rep e) [CSuspicious (ev_Command ev) (src_IP (ev_Source ev))] @
            dispatch_channels e1 a ev env 0 (en_channels e)) \<and>
       finishes l = zip [Suc (tr_next t)..<Suc (tr_next t) + length (en_channels e)] (map status_of outs) @
         [(tr_next t, if \<forall>x\<in>set outs. x = None then SpanStatusOK else SpanStatusInternalError)])"
proof (cases "dispatches rx now ev e")
  case False
  with assms(1) have "t' = t" by (auto simp: handle_traced_def dispatches_def split: option.splits if_splits prod.splits)
  with False handle_sends [OF assms(2,3)] show ?thesis by (intro exI [of _ "[]"]) auto
next
  case True
  then obtain reason e1 where reason: "match_rule rx e ev = Some reason" "src_IP (ev_Source ev) \<notin> en_ignoredIPs e"
    and r: "rateLimitAllow now ev e = (True, e1)"
    by (cases "rateLimitAllow now ev e") (auto simp: dispatches_def)
  have chs: "en_channels e1 = en_channels e" using rateLimitAllow_frame [OF r] by auto
  obtain a where run: "run_state (alert_traced msg None e1 a ev env) t = ((), t')"
    and eff: "snd (handle rx now env ev e) = to_sink (en_rep e) [CSuspicious (ev_Command ev) (src_IP (ev_Source ev))] @
      dispatch_channels e1 a ev env 0 (en_channels e)"
    using assms(1) reason r chs by (simp add: handle_traced_def handle_def Let_def)
  have sent: "sends (snd (handle rx now env ev e)) \<noteq> []" using True handle_sends [OF assms(2,3)] by blast
  show ?thesis
    using alert_traced_run [OF run, of "[]"] sent eff unfolding chs status_of_first by fastforce
qed

text \<open>
  The trace of a probe: one span, under the context's, whose status is the success flag that the
  probe reports to the metrics.
\<close>

lemma probe_span:
  assumes "run_state (probeOnce_traced msg ctx env c) t = (res, t')" and "ck_metrics c"
    and "ctx = (case st of [] \<Rightarrow> None | j # _ \<Rightarrow> Some j)"
  shows "\<exists>l. tr_log t' = tr_log t @ l \<and> nesting st l = Some st \<and>
    starts l = [(tr_next t, ctx, ''role.probe'')] \<and>
    finishes l = [(tr_next t, if \<exists>d now. CRoleProbe True d now \<in> set (metric_calls (snd (probeOnce env c)))
      then SpanStatusOK else SpanStatusInternalError)]"
proof -
  let ?err = "case queryRole env (ck_opts c) of Inl e \<Rightarrow> Some (msg e) | Inr _ \<Rightarrow> None"
  let ?l = "[SpanStart (tr_next t) ctx ''db.redis.info'' ''role.probe'',
      SpanData (tr_next t) ''redis_address'' (ro_Address (ck_opts c)),
      SpanData (tr_next t) ''redis_network'' (ro_Network (ck_opts c))] @ finish_log (tr_next t) ?err"
  have "tr_log t' = tr_log t @ ?l" using assms(1) by (auto simp: probeOnce_traced_def Let_def)
  moreover have "status_of ?err = (if \<exists>d now. CRoleProbe True d now \<in> set (metric_calls (snd (probeOnce env c)))
      then SpanStatusOK else SpanStatusInternalError)"
    using assms(2)
    by (auto simp: probeOnce_def probe_failed_def publish_def status_of_def Let_def store_master_def store_current_def
        split: sum.splits if_splits)
  ultimately show ?thesis using assms(3) by (intro exI [of _ ?l]) (simp add: nesting_append)
qed

theorem handle_spans_witness:
  "\<exists>l. tr_log (snd (run_state (handle_traced (\<lambda>_. ''error'') None sample_regexp 0 (\<lambda>_ _. sample_send 200)
      (sample_event ''FLUSHALL'' []) sample_engine) \<lparr>tr_next = 0, tr_log = []\<rparr>)) = l \<and> nesting [] l = Some [] \<and>
     starts l = [(0, None, ''alert.dispatch''), (1, Some 0, ''alert.send.webhook'')]"
proof -
  let ?ev = "sample_event ''FLUSHALL'' []" and ?env = "\<lambda>_ _. sample_send 200"
  let ?m = "handle_traced (\<lambda>_. ''error'') None sample_regexp 0 ?env ?ev sample_engine"
  let ?t = "\<lparr>tr_next = 0, tr_log = []\<rparr>"
  have r: "run_state ?m ?t = ((), snd (run_state ?m ?t))" by (simp add: prod_eq_iff)
  have e: "1 \<le> en_retryMax sample_engine" "en_channels sample_engine = [sample_webhook]"
    by (simp_all add: sample_engine_simps)
  have "ToUpper ascii_only (TrimSpace ''flushall'') = ''FLUSHALL''" by code_simp
  then have "dispatches sample_regexp 0 ?ev sample_engine"
    by (simp add: dispatches_def match_rule_def sample_engine_def New_Engine_def sample_alert_opts_def sample_event_def
        rateLimitAllow_def Let_def)
  then have "sends (snd (handle sample_regexp 0 ?env ?ev sample_engine)) \<noteq> []"
    using handle_sends [OF e(1)] e(2) by simp
  with handle_spans [OF r e(1)] e(2) show ?thesis by (fastforce simp: sample_webhook_def)
qed

end
