(* ===== verification/Recorder.thy ===== *)
theory Recorder
  imports Support
begin

text \<open>
  The recording transport for tests, \<^verbatim>\<open>internal/sentryx/sentryxtest/sentryxtest.go\<close>: what it
  keeps of an event, the snapshot and the waiting loop of a recorder, and the swap of the global
  client for the time of a test. Maps and slices are values here, so a copy is the value itself.
\<close>

section \<open>Events\<close>

text \<open>The fields of the SDK's event that the transport reads; a nil map is \<open>None\<close>.\<close>

record sentry_event =
  sv_Type :: string
  sv_Message :: string
  sv_Transaction :: string
  sv_Tags :: "(string \<rightharpoonup> string) option"
  sv_Exception :: "string list"
  sv_Contexts :: "string \<rightharpoonup> (string \<rightharpoonup> kv_value)"

record CapturedEvent =
  ce_Type :: string
  ce_Message :: string
  ce_Transaction :: string
  ce_Exceptions :: "string list"
  ce_Tags :: "(string \<rightharpoonup> string) option"
  ce_Details :: "(string \<rightharpoonup> kv_value) option"

record recordingTransport =
  rt_events :: "CapturedEvent list"

definition SendEvent :: "sentry_event \<Rightarrow> recordingTransport \<Rightarrow> recordingTransport" where
  "SendEvent e r =
     r\<lparr>rt_events := rt_events r @
        [\<lparr>ce_Type = sv_Type e, ce_Message = sv_Message e, ce_Transaction = sv_Transaction e,
          ce_Exceptions = sv_Exception e, ce_Tags = sv_Tags e, ce_Details = sv_Contexts e ''details''\<rparr>]\<rparr>"

definition Events :: "recordingTransport \<Rightarrow> CapturedEvent list" where
  "Events r = rt_events r"

section \<open>Waiting\<close>

text \<open>
  \<open>now i\<close> is the \<open>i\<close>-th reading of the clock, the first being that of the deadline; \<open>snapshot i\<close> is
  what \<^verbatim>\<open>Events\<close> returns in iteration \<open>i\<close>. The loop has no bound of its own: it ends when the
  clock passes the deadline.
\<close>

partial_function (option) wait_loop ::
  "(nat \<Rightarrow> int) \<Rightarrow> (nat \<Rightarrow> CapturedEvent list) \<Rightarrow> int \<Rightarrow> (CapturedEvent \<Rightarrow> bool) \<Rightarrow> nat \<Rightarrow> bool option" where
  "wait_loop now snapshot deadline pred i =
     (if now (Suc i) < deadline
      then if list_ex pred (snapshot i) then Some True else wait_loop now snapshot deadline pred (Suc i)
      else Some False)"

declare wait_loop.simps [code]

definition WaitFor ::
  "(nat \<Rightarrow> int) \<Rightarrow> (nat \<Rightarrow> CapturedEvent list) \<Rightarrow> int \<Rightarrow> (CapturedEvent \<Rightarrow> bool) \<Rightarrow> bool option" where
  "WaitFor now snapshot timeout pred = wait_loop now snapshot (now 0 + timeout) pred 0"

section \<open>Swapping the client\<close>

text \<open>
  \<^verbatim>\<open>Swap\<close> on the client of the global hub: the new client, and the one that the cleanup of the test
  puts back. What \<^verbatim>\<open>sentry.NewClient\<close> answers is the parameter \<open>sdk\<close>; an error ends the test.
\<close>

definition Swap ::
  "(ClientOptions \<Rightarrow> string option) \<Rightarrow> bool \<Rightarrow> ClientOptions option \<Rightarrow> string + (ClientOptions option \<times> ClientOptions option)" where
  "Swap sdk tracesEnabled prev =
     (let opts = \<lparr>co_Dsn = ''https://public@example.com/1'', co_Environment = [], co_Release = [],
            co_SampleRate = 1, co_TracesSampleRate = (if tracesEnabled then 1 else 0),
            co_EnableTracing = tracesEnabled, co_AttachStacktrace = False, co_ServerName = []\<rparr>
      in case sdk opts of Some e \<Rightarrow> Inl e | None \<Rightarrow> Inr (Some opts, prev))"

section \<open>Properties\<close>

text \<open>A report made while the client is swapped is not discarded.\<close>

lemma Swap_captures:
  assumes "Swap sdk traces prev = Inr (client, back)"
  shows "back = prev \<and> Enabled client \<and> Capture client (Some e) kv = Some (map_of (rev (kv_details kv)))"
  using assms by (auto simp: Swap_def Enabled_def Capture_def Let_def split: option.splits)

lemma wait_loop_result:
  assumes step: "\<And>i. now (Suc i) + 10 * Millisecond \<le> now (Suc (Suc i))"
  shows "\<exists>b. wait_loop now snapshot deadline pred i = Some b \<and>
    (b \<longleftrightarrow> (\<exists>k\<ge>i. now (Suc k) < deadline \<and> list_ex pred (snapshot k)))"
proof (induction "nat (deadline - now (Suc i))" arbitrary: i rule: less_induct)
  case less
  have mono: "now (Suc i) \<le> now (Suc k)" if "i \<le> k" for k
    using that
  proof (induction k rule: dec_induct)
    case base
    then show ?case by simp
  next
    case (step n)
    have "now (Suc n) + 10 * Millisecond \<le> now (Suc (Suc n))" by (rule assms)
    with step show ?case by simp
  qed
  show ?case
  proof (cases "now (Suc i) < deadline \<and> \<not> list_ex pred (snapshot i)")
    case True
    have "nat (deadline - now (Suc (Suc i))) < nat (deadline - now (Suc i))"
      using True step [of i] by simp
    from less [OF this] obtain b where "wait_loop now snapshot deadline pred (Suc i) = Some b"
      "b \<longleftrightarrow> (\<exists>k\<ge>Suc i. now (Suc k) < deadline \<and> list_ex pred (snapshot k))" by blast
    moreover have "(\<exists>k\<ge>Suc i. now (Suc k) < deadline \<and> list_ex pred (snapshot k)) \<longleftrightarrow>
        (\<exists>k\<ge>i. now (Suc k) < deadline \<and> list_ex pred (snapshot k))"
    proof
      assume "\<exists>k\<ge>i. now (Suc k) < deadline \<and> list_ex pred (snapshot k)"
      then obtain k where k: "i \<le> k" "now (Suc k) < deadline" "list_ex pred (snapshot k)" by blast
      with True have "k \<noteq> i" by blast
      with k show "\<exists>k\<ge>Suc i. now (Suc k) < deadline \<and> list_ex pred (snapshot k)" by (intro exI [of _ k]) simp
    qed (use Suc_leD in blast)
    ultimately show ?thesis using True by (subst wait_loop.simps) simp
  next
    case False
    show ?thesis
    proof (cases "now (Suc i) < deadline")
      case True
      with False show ?thesis by (subst wait_loop.simps) auto
    next
      case late: False
      then have "\<not> now (Suc k) < deadline" if "i \<le> k" for k using mono [OF that] by linarith
      with late show ?thesis by (subst wait_loop.simps) auto
    qed
  qed
qed

text \<open>
  \<^verbatim>\<open>WaitFor\<close> always returns: as every pause takes at least its ten milliseconds, the loop
  ends, and it answers true exactly when some snapshot taken before the deadline holds a matching
  event.
\<close>

theorem WaitFor_returns:
  assumes "\<And>i. now (Suc i) + 10 * Millisecond \<le> now (Suc (Suc i))"
  shows "\<exists>b. WaitFor now snapshot timeout pred = Some b \<and>
    (b \<longleftrightarrow> (\<exists>k. now (Suc k) < now 0 + timeout \<and> (\<exists>ev\<in>set (snapshot k). pred ev)))"
  using wait_loop_result [of now snapshot "now 0 + timeout" pred 0] assms
  by (simp add: WaitFor_def list_ex_iff)

theorem WaitFor_returns_witness:
  "WaitFor (\<lambda>i. int i * 10 * Millisecond) (\<lambda>i. if i < 3 then [] else Events (SendEvent
     \<lparr>sv_Type = ''error'', sv_Message = [], sv_Transaction = [], sv_Tags = None, sv_Exception = [''EOF''],
      sv_Contexts = (\<lambda>_. None)\<rparr> \<lparr>rt_events = []\<rparr>)) Second (\<lambda>ev. ce_Exceptions ev = [''EOF'']) = Some True"
proof -
  let ?snap = "\<lambda>i::nat. if i < 3 then [] else Events (SendEvent
     \<lparr>sv_Type = ''error'', sv_Message = [], sv_Transaction = [], sv_Tags = None, sv_Exception = [''EOF''],
      sv_Contexts = (\<lambda>_. None)\<rparr> \<lparr>rt_events = []\<rparr>)"
  have "int (Suc 3) * 10 * Millisecond < int 0 * 10 * Millisecond + Second \<and>
      (\<exists>ev\<in>set (?snap 3). ce_Exceptions ev = [''EOF''])"
    by (simp add: Events_def SendEvent_def)
  with WaitFor_returns [of "\<lambda>i. int i * 10 * Millisecond" ?snap Second "\<lambda>ev. ce_Exceptions ev = [''EOF'']"]
  show ?thesis by auto
qed

end
