(* ===== verification/Spec2Isabelle.thy ===== *)
theory Spec2Isabelle
  imports Command Shutdown Failover Trace Recorder
begin

text \<open>
  \<^bold>\<open>Redis-Watcher.\<close> The program connects to a Redis server, issues MONITOR, parses every printed line
  into an event and fans the events out to Prometheus metrics, audit outputs and alert channels. An
  optional role checker keeps it passive while the server is not a master. This development models
  the Go code under \<^verbatim>\<open>src/\<close> as HOL functions and proves what its parts promise.

  \<^bold>\<open>How the program is put together.\<close> \<^verbatim>\<open>cmd/redis-watcher/main.go\<close> calls \<^verbatim>\<open>app.Run\<close>, which loads the
  configuration, builds every component and starts one goroutine for each. The MONITOR client reads
  lines, parses them and puts events on a buffered channel; the dispatcher takes them off, drops
  ignored commands, records the others in the registry and submits them to one bounded queue per
  output and to the queue of the alert engine; consumers write to their sinks; the engine matches
  rules, limits rates, and sends with retries. The client asks the role checker, its gate, before
  it connects and is told when the gate closes. All report to one metrics registry, from which the
  probes and the scrape are answered. One signal, or the end of the client, cancels the shared
  context.

  \<^bold>\<open>Theories.\<close>
  \<^item> \<^verbatim>\<open>Prelude\<close>, \<^verbatim>\<open>GoText\<close>, \<^verbatim>\<open>GoTime\<close>: what the code uses of Go's \<^verbatim>\<open>strings\<close>,
    \<^verbatim>\<open>strconv\<close>, \<^verbatim>\<open>unicode/utf8\<close> and \<^verbatim>\<open>time\<close> packages, at 64 bits, with their laws. Case mapping outside
    ASCII is the parameter \<open>unicode\<close>.
  \<^item> \<^verbatim>\<open>Event\<close> (\<^verbatim>\<open>internal/event\<close>), \<^verbatim>\<open>Parser\<close> (\<^verbatim>\<open>internal/monitor/parser.go\<close>), \<^verbatim>\<open>Resp\<close>
    (\<^verbatim>\<open>internal/resp\<close>): the event record, the line parser, the protocol codec. The parser inverts the
    server's line format; written commands are read back.
  \<^item> \<^verbatim>\<open>Chan\<close>: buffered channels and the locale \<open>drop_queue\<close>, the contract of a queue that drops or
    blocks when full; interpreted for the client, the consumers and the engine.
  \<^item> \<^verbatim>\<open>Metrics\<close> (\<^verbatim>\<open>internal/metrics\<close>): the registry's methods over the list of metric operations, readiness,
    the queue collector. Gauges and readiness agree, no method panics, when a scrape is consistent.
  \<^item> \<^verbatim>\<open>Effect\<close>: the calls a component makes to the outside, in order: registry methods, error reports,
    sink and channel calls, dials, pauses.
  \<^item> \<^verbatim>\<open>Encode\<close>, \<^verbatim>\<open>Output\<close> (\<^verbatim>\<open>internal/output\<close>): the encoders, the sinks, the consumer with its
    shutdown, the manager. No event is lost unaccounted, reports are throttled, draining ends.
  \<^item> \<^verbatim>\<open>Monitor\<close> (\<^verbatim>\<open>internal/monitor/client.go\<close>): the read loop, a session, the reconnect loop.
    Delivery in order up to where a cancelled context cuts a session short, truthful connection flags, the backoff sequence, when the client gives up.
  \<^item> \<^verbatim>\<open>Gate\<close>, \<^verbatim>\<open>Role\<close> (\<^verbatim>\<open>internal/role\<close>): the locale of a gate that can be waited for, the checker, and
    the interleaving of waiters and probes as a step relation. No wake-up is lost.
  \<^item> \<^verbatim>\<open>Failover\<close>: the client's loop, the watcher of a session and the checker, interleaved at their atomic
    operations. A demotion closes the session and parks the client, a promotion resumes it, and the
    one window in which a demotion goes unnoticed.
  \<^item> \<^verbatim>\<open>Alert\<close> (\<^verbatim>\<open>internal/alert\<close>): rules, rate limit, retries, the three channels. Attempts and their
    accounting, pauses, the rate over any span, which events are sent where.
  \<^item> \<^verbatim>\<open>Config\<close>, \<^verbatim>\<open>Support\<close> (\<^verbatim>\<open>internal/config\<close>, \<^verbatim>\<open>internal/logging\<close>, \<^verbatim>\<open>internal/sentryx\<close>): defaults,
    environment, validation against a reference reading; logger and error tracker.
  \<^item> \<^verbatim>\<open>Server\<close> (\<^verbatim>\<open>internal/metrics/server.go\<close>): routes, the probes' answers over HTTP, how the server stops.
  \<^item> \<^verbatim>\<open>Trace\<close> (\<^verbatim>\<open>internal/sentryx\<close>): the span functions in a state monad and the spans of a probe and of an
    alert; every log of spans is well nested and tells the outcome.
  \<^item> \<^verbatim>\<open>Recorder\<close> (\<^verbatim>\<open>internal/sentryx/sentryxtest\<close>): the recording transport; its waiting loop ends.
  \<^item> \<^verbatim>\<open>App\<close>, \<^verbatim>\<open>Lifecycle\<close> (\<^verbatim>\<open>internal/app\<close>, \<^verbatim>\<open>cmd/redis-watcher\<close>): building the components, the dispatcher,
    goroutines, signals and exit status.
  \<^item> \<^verbatim>\<open>Command\<close> (\<^verbatim>\<open>cmd/redis-watcher/main.go\<close>): the flags and what a command line does.
  \<^item> \<^verbatim>\<open>Pipeline\<close>: client, dispatcher, consumers and engine of a started application as concurrent
    goroutines. Order and completeness in every interleaving, and when shutdown can hang.
  \<^item> \<^verbatim>\<open>AlertQueue\<close>: the events the alert engine gets to handle in such a run: the stream the outputs get.
  \<^item> \<^verbatim>\<open>Shutdown\<close>: the end of a run of that pipeline: what is lost, and that no counter tells.
  \<^item> This theory: the path of a command from the server to the queues.

  \<^bold>\<open>Conventions.\<close> A struct is a record with prefixed fields, an interface a datatype of its
  implementations, an error a value of a sum or option. A method returns the new receiver and its
  effects; \<open>None\<close> is a sender blocked on a full channel where the text says so. Byte strings are
  \<open>string\<close>, durations \<open>int\<close> nanoseconds, atomic counters \<open>64 word\<close>. Names are the source's; a prefix
  or suffix avoids clashes. What the environment does (answers of servers, sinks and HTTP
  services, the order in which goroutines run, the clock) is an argument of the definitions that
  depend on it, so the theorems hold for every behaviour of it. There is no fuel: every loop
  is structural or ends by a measure (the unread bytes, the attempts left), a loop that only the
  clock ends (\<^verbatim>\<open>WaitFor\<close>) is a partial function proved to return, and loops without an end
  (\<^verbatim>\<open>Run\<close>) are runs over any finite sequence of what happens to them.

  \<^bold>\<open>Parameters.\<close> The regexp engine, YAML decoding and the file system, the float rounding of
  durations with a fraction, the Sentry SDK's answer to its options, lumberjack's result of a
  write, the answer of the Prometheus handler and the order of a range over a map are arguments.

  \<^bold>\<open>Not modelled.\<close> Log lines and the periodic statistics line, what the Sentry SDK does with events
  and spans (sampling, delivery, the handler it wraps around the server's), the exposition format
  and the process collector of the metrics library, patterns of the multiplexer other than plain
  paths, file rotation, and memory exhaustion (a bulk length near the top of the 64-bit range).
\<close>

section \<open>From the server's commands to the output queues\<close>

text \<open>A command as the server executes it, and the line its MONITOR prints for it.\<close>

record redis_command =
  cm_sec :: int
  cm_usec :: int
  cm_db :: int
  cm_addr :: string
  cm_name :: string
  cm_args :: "string list"

definition printed :: "(char \<Rightarrow> string) \<Rightarrow> redis_command \<Rightarrow> string" where
  "printed rep k = monitor_line rep (cm_sec k) (cm_usec k) (cm_db k) (cm_addr k) (cm_name k # cm_args k)"

definition printable :: "redis_command \<Rightarrow> bool" where
  "printable k \<longleftrightarrow> 0 \<le> cm_sec k \<and> cm_sec k < 2 ^ 63 \<and> 0 \<le> cm_usec k \<and> cm_usec k < 10 ^ 6 \<and>
     int64_range (cm_db k) \<and> plain_addr (cm_addr k) \<and> LF \<notin> set (cm_addr k)"

text \<open>The event the command is to become.\<close>

definition event_of :: "unicode \<Rightarrow> redis_command \<Rightarrow> Event" where
  "event_of U k =
     \<lparr>ev_Timestamp = \<lparr>unix_sec = cm_sec k, nanosec = cm_usec k * 1000\<rparr>, ev_DB = cm_db k,
      ev_Source = \<lparr>src_IP = fst (splitHostPort (cm_addr k)), src_Port = snd (splitHostPort (cm_addr k))\<rparr>,
      ev_Command = ToUpper U (cm_name k),
      ev_Subcommand =
        (if ToUpper U (cm_name k) \<in> set commandsWithSubcommand \<and> cm_args k \<noteq> []
         then ToUpper U (hd (cm_args k)) else []),
      ev_Args = cm_args k\<rparr>"

lemma Parse_printed:
  assumes "\<And>c. repr_byte c (rep c)" "printable k"
  shows "Parse U (printed rep k) = Inr (event_of U k)"
  using assms unfolding printed_def event_of_def printable_def by (intro Parse_line) auto

lemma printed_plus: "\<exists>t. printed rep k = CHR ''+'' # t @ [LF]"
  by (simp add: printed_def monitor_line_def)

lemma printed_one_line:
  assumes "\<And>c. LF \<notin> set (rep c)" "printable k"
  shows "LF \<notin> set (butlast (printed rep k))"
proof -
  have "LF \<notin> set (render_args rep as)" for as
    unfolding render_args_def
  proof (induction as)
    case (Cons a as)
    then show ?case using assms(1) by (cases as) (auto simp: quote_with_def)
  qed simp
  moreover have "LF \<notin> set (Itoa n)" for n by (simp add: Itoa_notin digit_of_nondigits)
  moreover have "LF \<notin> set (pad_int 6 n)" for n
    using all_digits_notin [OF all_digits_pad_int, of LF] by (simp add: digit_of_nondigits)
  ultimately show ?thesis using assms(2)
    by (auto simp: printed_def monitor_line_def printable_def butlast_append)
qed

lemma session_of_printed:
  assumes "\<And>c. repr_byte c (rep c)" "\<forall>k\<in>set ks. printable k"
  shows "session_events U (map (\<lambda>k. butlast (printed rep k)) ks) = map (event_of U) ks"
    and "session_failures U (map (\<lambda>k. butlast (printed rep k)) ks) = 0"
    and "stream_of (map (\<lambda>k. butlast (printed rep k)) ks) = concat (map (printed rep) ks)"
proof -
  have line: "butlast (printed rep k) @ [LF] = printed rep k" for k
    using printed_plus [of rep k] by auto
  have pre: "HasPrefix (printed rep k) ''+''" "\<not> HasPrefix (printed rep k) ''-''" for k
    using printed_plus [of rep k] by (auto simp: HasPrefix_single)
  have "session_lines (map (\<lambda>k. butlast (printed rep k)) ks) = map (printed rep) ks" for ks
    by (induction ks) (simp_all add: line pre)
  note lines = this
  have p: "Parse U (printed rep k) = Inr (event_of U k)" if "k \<in> set ks" for k
    using Parse_printed [OF assms(1)] assms(2) that by blast
  show "session_failures U (map (\<lambda>k. butlast (printed rep k)) ks) = 0"
    by (simp add: session_failures_def lines filter_empty_conv p)
  have "concat (map (\<lambda>x. case Parse U (printed rep x) of Inl x \<Rightarrow> [] | Inr ev \<Rightarrow> [ev]) ks) =
      concat (map (\<lambda>x. [event_of U x]) ks)"
    by (rule arg_cong [of _ _ concat]) (simp add: p)
  then show "session_events U (map (\<lambda>k. butlast (printed rep k)) ks) = map (event_of U) ks"
    by (simp add: session_events_def lines comp_def)
  show "stream_of (map (\<lambda>k. butlast (printed rep k)) ks) = concat (map (printed rep) ks)"
    by (simp add: stream_of_def comp_def line)
qed

text \<open>
  C7: From the server to the queues. Let the server execute any sequence of commands and print each
  as a MONITOR line, with any of its escapes and no raw line feed, after accepting AUTH and MONITOR;
  let the client read them, without the drop policy, in whatever chunks, and the dispatcher work
  off what it received. Then the dispatcher has handled the events of exactly the first \<open>n\<close>
  commands and the events channel holds exactly the others, in order, nothing is lost or invented
  and no line is counted as unparsable; every output queue and the alert queue have been fed
  exactly those of the first \<open>n\<close> whose command is not ignored; and each is counted once in the
  metrics.
\<close>

theorem audit_end_to_end:
  assumes "\<And>c. repr_byte c (rep c)" "\<And>c. LF \<notin> set (rep c)" "\<forall>k\<in>set ks. printable k"
    and "ce_dial env = None" "ce_auth_sent env" "ce_monitor_sent env"
    and "ce_stream env = (if o_Password (mc_opts mon) = [] then [] else ''+OK'' @ CRLF) @ ''+OK'' @ CRLF @
           concat (map (printed rep) ks)"
    and "\<not> mc_drop mon" "\<forall>s\<in>set (ce_sched env). \<not> snd s" "out_buf mon = []"
    and "runOnce U env mon = (err, mon', evs, es)" and "dispatch_all evs d = Some (d', fs)"
  shows "\<exists>n. evs = map (event_of U) (take n ks) \<and> out_buf mon' = map (event_of U) (drop n ks) \<and>
    mc_parseEr mon' = mc_parseEr mon \<and>
    rel_option (list_all2 (\<lambda>c c'. submit_all (\<lambda>c ev. map_option fst (Submit c ev)) c
        (filter (\<lambda>ev. ev_Command ev \<notin> dp_ignored d) (map (event_of U) (take n ks))) = Some c')) (dp_outputs d) (dp_outputs d') \<and>
    rel_option (\<lambda>e e'. submit_all (\<lambda>e ev. map_option fst (Engine_Submit e ev)) e
        (filter (\<lambda>ev. ev_Command ev \<notin> dp_ignored d) (map (event_of U) (take n ks))) = Some e') (dp_alerts d) (dp_alerts d') \<and>
    length (filter is_seen (metric_calls fs)) = n \<and> n \<le> length ks"
proof -
  let ?ls = "map (\<lambda>k. butlast (printed rep k)) ks"
  note sess = session_of_printed(1,2) [OF assms(1,3), where U = U] and stream = session_of_printed(3) [OF assms(1,3)]
  have "\<exists>e. err = Some e \<and> (session_outcome U env ?ls mon e mon' evs \<or> session_cut U (ce_sched env) ?ls mon e mon' evs)"
    by (rule runOnce_outcome [where rest = "[]"])
       (use assms printed_one_line [OF assms(2)] in \<open>simp_all add: stream\<close>)
  then obtain e where "session_outcome U env ?ls mon e mon' evs"
    using assms(9) by (auto simp: session_cut_def)
  then have all: "evs @ out_buf mon' = map (event_of U) ks" "mc_parseEr mon' = mc_parseEr mon"
    using assms(8,10) sess(1,2) unfolding session_outcome_def by auto
  define n where "n = length evs"
  have evs: "evs = map (event_of U) (take n ks)" "out_buf mon' = map (event_of U) (drop n ks)" "n \<le> length ks"
    using arg_cong [OF all(1), of "take n"] arg_cong [OF all(1), of "drop n"] arg_cong [OF all(1), of length]
    by (simp_all add: n_def take_map drop_map)
  have len: "length (filter is_seen (metric_calls fs)) = n"
    using dispatch_all_Some [OF assms(12)] by (simp add: seen_calls_def n_def)
  from dispatch_all_Some [OF assms(12), unfolded kept_events_def evs(1)] all(2) evs len show ?thesis by blast
qed

definition sample_rep :: "char \<Rightarrow> string" where
  "sample_rep c = (if c = DQ \<or> c = BS then [BS, c] else if c = LF then [BS, CHR ''n''] else [c])"

definition sample_commands :: "redis_command list" where
  "sample_commands =
     [\<lparr>cm_sec = 1583789991, cm_usec = 940458, cm_db = 0, cm_addr = ''127.0.0.1:54302'', cm_name = ''set'',
       cm_args = [''k'', ''two'' @ [LF] @ ''lines'']\<rparr>,
      \<lparr>cm_sec = 1583789992, cm_usec = 7, cm_db = 3, cm_addr = ''lua'', cm_name = ''ping'', cm_args = []\<rparr>]"

definition sample_env :: conn_env where
  "sample_env = \<lparr>ce_dial = None, ce_auth_sent = True, ce_monitor_sent = True,
     ce_stream = ''+OK'' @ CRLF @ concat (map (printed sample_rep) sample_commands), ce_end = EndEOF,
     ce_cancelled = False, ce_sched = [(0, False), (1, False)], ce_took = 0\<rparr>"

lemma sample_rep_ok: "repr_byte c (sample_rep c)" "LF \<notin> set (sample_rep c)"
  by (simp_all add: sample_rep_def repr_byte_def escape_pairs_def)

theorem audit_end_to_end_witness:
  "\<exists>err mon' evs es d' fs n. runOnce ascii_only sample_env sample_client = (err, mon', evs, es) \<and>
     dispatch_all evs sample_dispatcher = Some (d', fs) \<and> evs @ out_buf mon' = map (event_of ascii_only) sample_commands"
proof -
  obtain err mon' evs es where r: "runOnce ascii_only sample_env sample_client = (err, mon', evs, es)"
    by (metis prod_cases4)
  obtain d' fs where d: "dispatch_all evs sample_dispatcher = Some (d', fs)"
    using dispatch_all_drop [of sample_dispatcher evs]
    by (auto simp: dropping_def sample_dispatcher_def sample_consumer_def)
  have "\<forall>k\<in>set sample_commands. printable k"
    by (simp add: sample_commands_def printable_def plain_addr_def)
  from audit_end_to_end [OF sample_rep_ok this _ _ _ _ _ _ _ r d]
  obtain n where "evs = map (event_of ascii_only) (take n sample_commands)"
    "out_buf mon' = map (event_of ascii_only) (drop n sample_commands)"
    by (auto simp: sample_env_def sample_client_simps sample_opts_def)
  then show ?thesis using r d by (metis append_take_drop_id map_append)
qed

end
